theory Spec2Isabelle
  imports Main "HOL-Library.Sublist"
begin

section \<open>Options and enumerations (src/commands/init.ts, lines 13-64)\<close>

text \<open>
  The \<open>init\<close> command of create-roblox-ts. Every \<open>T | undefined\<close> field of the
  parsed command line is an \<open>option\<close>; the enumerations are datatypes together with
  the strings they stand for.
\<close>

type_synonym path = string

datatype InitMode = NoneMode | Game | Place | Model | Plugin | Package

fun modeValue :: "InitMode \<Rightarrow> string" where
  "modeValue NoneMode = ''none''"
| "modeValue Game = ''game''"
| "modeValue Place = ''place''"
| "modeValue Model = ''model''"
| "modeValue Plugin = ''plugin''"
| "modeValue Package = ''package''"

datatype PackageManager = NPM | Yarn | PNPM

record InitOptions =
  compilerVersion :: "string option"
  dir :: "string option"
  yes :: "bool option"
  git :: "bool option"
  eslint :: "bool option"
  prettier :: "bool option"
  vscode :: "bool option"
  packageManager :: "PackageManager option"
  skipBuild :: "bool option"

record PackageManagerCommands =
  pm_init :: string
  pm_devInstall :: string
  pm_build :: string

fun packageManagerCommands :: "PackageManager \<Rightarrow> PackageManagerCommands" where
  "packageManagerCommands NPM =
     \<lparr>pm_init = ''npm init -y'', pm_devInstall = ''npm install --silent -D'',
      pm_build = ''npm run build''\<rparr>"
| "packageManagerCommands Yarn =
     \<lparr>pm_init = ''yarn init -y'', pm_devInstall = ''yarn add --silent -D'',
      pm_build = ''yarn run build''\<rparr>"
| "packageManagerCommands PNPM =
     \<lparr>pm_init = ''pnpm init'', pm_devInstall = ''pnpm install --silent -D'',
      pm_build = ''pnpm run build''\<rparr>"

definition RBXTS_SCOPE :: string where
  "RBXTS_SCOPE = ''@rbxts''"

definition GIT_IGNORE :: "string list" where
  "GIT_IGNORE = [''/node_modules'', ''/out'', ''/include'', ''*.tsbuildinfo'']"

section \<open>Errors, JSON values and the observable effects\<close>

text \<open>
  \<open>InitError\<close> extends \<open>LoggableError\<close>, which is not a subclass of the JavaScript
  \<open>Error\<close>; every other failure (a rejected file-system call, a failed spawn, a
  \<open>TypeError\<close>) is an \<open>Error\<close>. The message of an \<open>InitError\<close> is kept structured.
\<close>

datatype init_message =
    NotADirectory path
  | CouldOverwrite "path list"
  | CommandExited string "int option" string

datatype error = InitError init_message | JsError string

datatype json =
    JNull
  | JBool bool
  | JNumber int
  | JString string
  | JArray "json list"
  | JObject "(string \<times> json) list"

text \<open>
  What \<open>fs.outputFile\<close> is given: plain text, or \<open>JSON.stringify(value, _, indent)\<close>
  kept as the value and the indentation unit.
\<close>

datatype payload = Text string | Json json string

datatype event =
    Asked string
  | EnsureDir path
  | OutputFile path payload
  | Copy path path
  | Spawn string "string list" path
  | StepStart string
  | StepDone string

datatype 'a settled = Fulfilled 'a | Rejected error

datatype 'a reply = Answer 'a | Cancel

datatype spawned = Closed "int option" string | SpawnFailed error

record stats =
  isFile :: bool
  isSymbolicLink :: bool
  isDirectory :: bool

text \<open>
  The collaborators of \<open>init\<close> that are not code of the repository: \<open>lookpath\<close>, the
  \<open>prompts\<close> user, Node's \<open>path\<close> module relative to \<open>process.cwd()\<close>, string
  coercion, \<open>fs-extra\<close> over a file-system state \<open>'fs\<close>, and \<open>child_process.spawn\<close>.
  A mutating call returns the error it rejects with (if any) and the new state.
\<close>

record 'fs host =
  lookpath :: "string \<Rightarrow> string option settled"
  textReply :: "string \<Rightarrow> string reply"
  confirmReply :: "string \<Rightarrow> bool reply"
  selectReply :: "string \<Rightarrow> nat reply"
  resolve :: "string \<Rightarrow> path"
  relative :: "path \<Rightarrow> path"
  packageRoot :: path
  toString :: "json option \<Rightarrow> string"
  pathExists :: "'fs \<Rightarrow> path \<Rightarrow> bool"
  stat :: "'fs \<Rightarrow> path \<Rightarrow> error + stats"
  readdir :: "'fs \<Rightarrow> path \<Rightarrow> error + string list"
  readJson :: "'fs \<Rightarrow> path \<Rightarrow> error + json"
  ensureDir :: "path \<Rightarrow> 'fs \<Rightarrow> error option \<times> 'fs"
  outputFile :: "path \<Rightarrow> payload \<Rightarrow> 'fs \<Rightarrow> error option \<times> 'fs"
  copy :: "path \<Rightarrow> path \<Rightarrow> 'fs \<Rightarrow> error option \<times> 'fs"
  spawn :: "string \<Rightarrow> string list \<Rightarrow> path \<Rightarrow> 'fs \<Rightarrow> spawned \<times> 'fs"

text \<open>
  The state of a run: the file system and the effects performed so far, oldest first.
  An asynchronous function is a state transformer whose result is a value, a thrown
  error, or \<open>process.exit(n)\<close>.
\<close>

record 'fs world =
  fsys :: 'fs
  trace :: "event list"

datatype 'a result = Ok 'a | Throw error | Exit nat

type_synonym ('a, 'fs) prog = "'fs world \<Rightarrow> 'a result \<times> 'fs world"

definition return :: "'a \<Rightarrow> ('a, 'fs) prog" where
  "return x w = (Ok x, w)"

definition throw :: "error \<Rightarrow> ('a, 'fs) prog" where
  "throw e w = (Throw e, w)"

definition processExit :: "nat \<Rightarrow> ('a, 'fs) prog" where
  "processExit n w = (Exit n, w)"

definition andThen :: "('a, 'fs) prog \<Rightarrow> ('a \<Rightarrow> ('b, 'fs) prog) \<Rightarrow> ('b, 'fs) prog" where
  "andThen m f w =
     (case m w of
        (Ok a, w') \<Rightarrow> f a w'
      | (Throw e, w') \<Rightarrow> (Throw e, w')
      | (Exit n, w') \<Rightarrow> (Exit n, w'))"

definition emit :: "event \<Rightarrow> (unit, 'fs) prog" where
  "emit e w = (Ok (), w\<lparr>trace := trace w @ [e]\<rparr>)"

definition runIf :: "bool \<Rightarrow> (unit, 'fs) prog \<Rightarrow> (unit, 'fs) prog" where
  "runIf b m = (if b then m else return ())"

subsection \<open>File-system and process calls\<close>

definition fs_pathExists :: "'fs host \<Rightarrow> path \<Rightarrow> (bool, 'fs) prog" where
  "fs_pathExists h p w = (Ok (pathExists h (fsys w) p), w)"

definition fs_stat :: "'fs host \<Rightarrow> path \<Rightarrow> (stats, 'fs) prog" where
  "fs_stat h p w = (case stat h (fsys w) p of Inl e \<Rightarrow> (Throw e, w) | Inr st \<Rightarrow> (Ok st, w))"

definition fs_readdir :: "'fs host \<Rightarrow> path \<Rightarrow> (string list, 'fs) prog" where
  "fs_readdir h p w = (case readdir h (fsys w) p of Inl e \<Rightarrow> (Throw e, w) | Inr es \<Rightarrow> (Ok es, w))"

definition fs_readJson :: "'fs host \<Rightarrow> path \<Rightarrow> (json, 'fs) prog" where
  "fs_readJson h p w = (case readJson h (fsys w) p of Inl e \<Rightarrow> (Throw e, w) | Inr j \<Rightarrow> (Ok j, w))"

definition mutate :: "event \<Rightarrow> ('fs \<Rightarrow> error option \<times> 'fs) \<Rightarrow> (unit, 'fs) prog" where
  "mutate ev f w =
     (case f (fsys w) of
        (None, s) \<Rightarrow> (Ok (), \<lparr>fsys = s, trace = trace w @ [ev]\<rparr>)
      | (Some e, s) \<Rightarrow> (Throw e, \<lparr>fsys = s, trace = trace w @ [ev]\<rparr>))"

definition fs_ensureDir :: "'fs host \<Rightarrow> path \<Rightarrow> (unit, 'fs) prog" where
  "fs_ensureDir h p = mutate (EnsureDir p) (ensureDir h p)"

definition fs_outputFile :: "'fs host \<Rightarrow> path \<Rightarrow> payload \<Rightarrow> (unit, 'fs) prog" where
  "fs_outputFile h p c = mutate (OutputFile p c) (outputFile h p c)"

definition fs_copy :: "'fs host \<Rightarrow> path \<Rightarrow> path \<Rightarrow> (unit, 'fs) prog" where
  "fs_copy h src dst = mutate (Copy src dst) (copy h src dst)"

text \<open>\<open>String.prototype.split\<close> on a one-character separator, \<open>Array.prototype.join\<close>.\<close>

fun splitOn :: "char \<Rightarrow> string \<Rightarrow> string list" where
  "splitOn c [] = [[]]"
| "splitOn c (x # xs) =
     (if x = c then [] # splitOn c xs
      else (case splitOn c xs of [] \<Rightarrow> [[x]] | t # ts \<Rightarrow> (x # t) # ts))"

fun joinWith :: "string \<Rightarrow> string list \<Rightarrow> string" where
  "joinWith sep [] = []"
| "joinWith sep [x] = x"
| "joinWith sep (x # y # ys) = x @ sep @ joinWith sep (y # ys)"

text \<open>
  \<open>cmd\<close> (lines 66-80): spawn the first word with the other words as arguments; resolve
  with the output on exit code 0, reject with an \<open>InitError\<close> on any other code, reject
  with the spawn's own error otherwise. \<open>split\<close> never returns an empty array, so
  the first word always exists.
\<close>

definition cmd :: "'fs host \<Rightarrow> string \<Rightarrow> path \<Rightarrow> (string, 'fs) prog" where
  "cmd h cmdStr cwd w =
     (let command = hd (splitOn CHR '' '' cmdStr); args = tl (splitOn CHR '' '' cmdStr) in
      case spawn h command args cwd (fsys w) of
        (Closed code output, s) \<Rightarrow>
          (if code = Some 0 then Ok output
           else Throw (InitError (CommandExited cmdStr code output)),
           \<lparr>fsys = s, trace = trace w @ [Spawn command args cwd]\<rparr>)
      | (SpawnFailed e, s) \<Rightarrow>
          (Throw e, \<lparr>fsys = s, trace = trace w @ [Spawn command args cwd]\<rparr>))"

text \<open>
  \<open>path.join\<close> of a directory and an entry name (no \<open>.\<close> or \<open>..\<close> segment
  arises at its uses in \<open>init\<close>).
\<close>

definition path_join :: "path \<Rightarrow> string \<Rightarrow> path" where
  "path_join a b =
     (if a = [] then b else if last a = CHR ''/'' then a @ b else a @ ''/'' @ b)"

definition TEMPLATES_DIR :: "'fs host \<Rightarrow> path" where
  "TEMPLATES_DIR h = path_join (packageRoot h) ''templates''"

section \<open>Tool availability (lines 112-122)\<close>

definition tools :: "string list" where
  "tools = [''npm'', ''pnpm'', ''yarn'', ''git'']"

text \<open>
  Line 114, one boolean per settled result: a fulfilled lookup is available unless its
  value is \<open>undefined\<close>, a rejected lookup counts as available. \<open>probe\<close> is that
  mapping over the settled lookups in tool order, the value \<open>init\<close> goes on with.
\<close>

definition available :: "string option settled \<Rightarrow> bool" where
  "available v = (case v of Fulfilled x \<Rightarrow> x \<noteq> None | Rejected e \<Rightarrow> True)"

definition probe :: "'fs host \<Rightarrow> bool list" where
  "probe h = map available (map (lookpath h) tools)"

text \<open>
  The promise that \<open>Promise.allSettled\<close> returns, as the language defines it: one slot
  per input promise and a count of the inputs not yet settled. The settlement of an
  input, a fulfilment and a rejection alike, fills its slot once and lowers the count;
  when the count reaches 0 the promise is fulfilled with the slots in input order. It
  has no other way to settle.
\<close>

datatype 'a promise = Pending | FulfilledWith 'a | RejectedWith error

record 'a gathering =
  slots :: "'a settled option list"
  remaining :: nat
  outcome :: "'a settled list promise"

definition allSettled :: "nat \<Rightarrow> 'a gathering" where
  "allSettled n =
     \<lparr>slots = replicate n None, remaining = n,
      outcome = (if n = 0 then FulfilledWith [] else Pending)\<rparr>"

definition settle :: "nat \<times> 'a settled \<Rightarrow> 'a gathering \<Rightarrow> 'a gathering" where
  "settle ev g =
     (if fst ev < length (slots g) \<and> slots g ! fst ev = None then
        \<lparr>slots = (slots g)[fst ev := Some (snd ev)],
         remaining = remaining g - 1,
         outcome =
           (if remaining g - 1 = 0
            then FulfilledWith (List.map_filter (\<lambda>x. x) ((slots g)[fst ev := Some (snd ev)]))
            else outcome g)\<rparr>
      else g)"

definition deliver :: "(nat \<times> 'a settled) list \<Rightarrow> 'a gathering \<Rightarrow> 'a gathering" where
  "deliver evs g = fold settle evs g"

text \<open>
  What line 112 awaits once the lookups with the given positions in the tool list have
  settled, in that order: nothing while the promise is pending, and line 114 applied to
  its value once it is fulfilled.
\<close>

definition probeAfter :: "'fs host \<Rightarrow> nat list \<Rightarrow> bool list promise" where
  "probeAfter h order =
     (case outcome (deliver (map (\<lambda>i. (i, lookpath h (tools ! i))) order)
                      (allSettled (length tools))) of
        Pending \<Rightarrow> Pending
      | FulfilledWith results \<Rightarrow> FulfilledWith (map available results)
      | RejectedWith e \<Rightarrow> RejectedWith e)"

definition npmAvailable :: "bool list \<Rightarrow> bool" where
  "npmAvailable av = av ! 0"

definition pnpmAvailable :: "bool list \<Rightarrow> bool" where
  "pnpmAvailable av = av ! 1"

definition yarnAvailable :: "bool list \<Rightarrow> bool" where
  "yarnAvailable av = av ! 2"

definition gitAvailable :: "bool list \<Rightarrow> bool" where
  "gitAvailable av = av ! 3"

fun packageManagerExistance :: "bool list \<Rightarrow> PackageManager \<Rightarrow> bool" where
  "packageManagerExistance av NPM = npmAvailable av"
| "packageManagerExistance av PNPM = pnpmAvailable av"
| "packageManagerExistance av Yarn = yarnAvailable av"

definition packageManagerCount :: "bool list \<Rightarrow> nat" where
  "packageManagerCount av =
     length (filter (\<lambda>exists. exists) (map (packageManagerExistance av) [NPM, PNPM, Yarn]))"

section \<open>Prompts (lines 87-96 and 124-188)\<close>

text \<open>
  One question of a \<open>prompts\<close> call: skipped (no answer, no interaction) if its
  \<open>type\<close> is falsy; otherwise shown, and the answer recorded, or \<open>onCancel\<close>, which
  is \<open>process.exit(1)\<close> at both calls.
\<close>

definition askText :: "'fs host \<Rightarrow> bool \<Rightarrow> string \<Rightarrow> (string option, 'fs) prog" where
  "askText h applies name =
     (if applies then
        andThen (emit (Asked name)) (\<lambda>_.
          case textReply h name of
            Answer v \<Rightarrow> return (Some v)
          | Cancel \<Rightarrow> processExit 1)
      else return None)"

definition askConfirm :: "'fs host \<Rightarrow> bool \<Rightarrow> string \<Rightarrow> (bool option, 'fs) prog" where
  "askConfirm h applies name =
     (if applies then
        andThen (emit (Asked name)) (\<lambda>_.
          case confirmReply h name of
            Answer v \<Rightarrow> return (Some v)
          | Cancel \<Rightarrow> processExit 1)
      else return None)"

text \<open>A select prompt answers with the value of the choice under the cursor.\<close>

definition askSelect :: "'fs host \<Rightarrow> bool \<Rightarrow> string \<Rightarrow> 'a list \<Rightarrow> ('a option, 'fs) prog" where
  "askSelect h applies name choices =
     (if applies then
        andThen (emit (Asked name)) (\<lambda>_.
          case selectReply h name of
            Answer i \<Rightarrow>
              return (if choices = [] then None
                      else Some (choices ! min i (length choices - 1)))
          | Cancel \<Rightarrow> processExit 1)
      else return None)"

record Answers =
  a_template :: "InitMode option"
  a_git :: "bool option"
  a_eslint :: "bool option"
  a_prettier :: "bool option"
  a_vscode :: "bool option"
  a_packageManager :: "PackageManager option"

record ResolvedConfiguration =
  r_template :: InitMode
  r_git :: bool
  r_eslint :: bool
  r_prettier :: bool
  r_vscode :: bool
  r_packageManager :: PackageManager

text \<open>The nullish coalescing \<open>a ?? d\<close> and the guard \<open>a && b\<close> of line 126.\<close>

definition orElse :: "'a option \<Rightarrow> 'a \<Rightarrow> 'a" where
  "orElse a d = (case a of Some x \<Rightarrow> x | None \<Rightarrow> d)"

definition andAlso :: "bool option \<Rightarrow> bool \<Rightarrow> bool option" where
  "andAlso a b = (case a of None \<Rightarrow> None | Some x \<Rightarrow> if x then Some b else Some False)"

text \<open>The destructuring defaults of lines 124-130.\<close>

definition applyDefaults ::
  "InitOptions \<Rightarrow> InitMode \<Rightarrow> bool list \<Rightarrow> Answers \<Rightarrow> ResolvedConfiguration" where
  "applyDefaults argv initMode av ans =
     \<lparr>r_template = orElse (a_template ans) initMode,
      r_git = orElse (a_git ans)
                (orElse (git argv) (orElse (andAlso (yes argv) (gitAvailable av)) False)),
      r_eslint = orElse (a_eslint ans) (orElse (eslint argv) (orElse (yes argv) False)),
      r_prettier = orElse (a_prettier ans) (orElse (prettier argv) (orElse (yes argv) False)),
      r_vscode = orElse (a_vscode ans) (orElse (vscode argv) (orElse (yes argv) False)),
      r_packageManager = orElse (a_packageManager ans) (orElse (packageManager argv) NPM)\<rparr>"

text \<open>
  The choices of the package-manager prompt (lines 179-184): the enumeration's entries,
  in declaration order, that exist on the host.
\<close>

definition packageManagerChoices :: "bool list \<Rightarrow> PackageManager list" where
  "packageManagerChoices av = filter (packageManagerExistance av) [NPM, Yarn, PNPM]"

definition resolveOptions ::
  "'fs host \<Rightarrow> InitOptions \<Rightarrow> InitMode \<Rightarrow> bool list \<Rightarrow> (ResolvedConfiguration, 'fs) prog" where
  "resolveOptions h argv initMode av =
     andThen (askSelect h (initMode = NoneMode) ''template'' [Game, Model, Plugin, Package])
       (\<lambda>t.
     andThen (askConfirm h (git argv = None \<and> yes argv = None \<and> gitAvailable av) ''git'')
       (\<lambda>g.
     andThen (askConfirm h (eslint argv = None \<and> yes argv = None) ''eslint'')
       (\<lambda>e.
     andThen (askConfirm h (prettier argv = None \<and> yes argv = None) ''prettier'')
       (\<lambda>p.
     andThen (askConfirm h (vscode argv = None \<and> yes argv = None) ''vscode'')
       (\<lambda>v.
     andThen (askSelect h
                (packageManager argv = None \<and> packageManagerCount av > 1 \<and> yes argv = None)
                ''packageManager'' (packageManagerChoices av))
       (\<lambda>m.
     return (applyDefaults argv initMode av
       \<lparr>a_template = t, a_git = g, a_eslint = e, a_prettier = p, a_vscode = v,
        a_packageManager = m\<rparr>)))))))"

text \<open>
  Lines 87-105: the directory prompt, \<open>path.resolve\<close>, creation of a missing target
  directory, and the check that the target is a directory.
\<close>

definition resolveDir :: "'fs host \<Rightarrow> InitOptions \<Rightarrow> (path, 'fs) prog" where
  "resolveDir h argv =
     andThen (askText h (dir argv = None) ''dir'') (\<lambda>answer.
       case (case answer of Some d \<Rightarrow> Some d | None \<Rightarrow> dir argv) of
         None \<Rightarrow> throw (JsError ''TypeError'')
       | Some d \<Rightarrow>
           andThen (fs_pathExists h (resolve h d)) (\<lambda>found.
           andThen (runIf (\<not> found) (fs_ensureDir h (resolve h d))) (\<lambda>_.
           andThen (fs_stat h (resolve h d)) (\<lambda>st.
             if \<not> isDirectory st then throw (InitError (NotADirectory (resolve h d)))
             else return (resolve h d)))))"

section \<open>Collision check (lines 190-221)\<close>

record Paths =
  packageJson :: path
  packageLockJson :: path
  tsconfig :: path
  gitignore :: path
  eslintrc :: path
  prettierrc :: path
  settings :: path
  extensions :: path

definition paths :: "path \<Rightarrow> Paths" where
  "paths cwd =
     \<lparr>packageJson = path_join cwd ''package.json'',
      packageLockJson = path_join cwd ''package-lock.json'',
      tsconfig = path_join cwd ''tsconfig.json'',
      gitignore = path_join cwd ''.gitignore'',
      eslintrc = path_join cwd ''.eslintrc'',
      prettierrc = path_join cwd ''.prettierrc'',
      settings = path_join (path_join cwd ''.vscode'') ''settings.json'',
      extensions = path_join (path_join cwd ''.vscode'') ''extensions.json''\<rparr>"

text \<open>\<open>Object.values\<close> of the \<open>paths\<close> object: its values in the order of its keys.\<close>

definition Object_values :: "Paths \<Rightarrow> path list" where
  "Object_values ps =
     [packageJson ps, packageLockJson ps, tsconfig ps, gitignore ps, eslintrc ps,
      prettierrc ps, settings ps, extensions ps]"

definition templateDir :: "'fs host \<Rightarrow> InitMode \<Rightarrow> path" where
  "templateDir h template = path_join (TEMPLATES_DIR h) (modeValue template)"

text \<open>
  Lines 203-206: the inventory is computed from the target directory and the entries of
  the template directory; the configuration is in scope and not consulted.
\<close>

definition pathValues :: "ResolvedConfiguration \<Rightarrow> path \<Rightarrow> string list \<Rightarrow> path list" where
  "pathValues cfg cwd fileNames = Object_values (paths cwd) @ map (path_join cwd) fileNames"

text \<open>
  The condition of lines 210-212 for one path: \<open>filePath && pathExists\<close>, then the
  \<open>stat\<close>, and the directory listing only when the path is neither a file nor a
  symbolic link. A rejected \<open>stat\<close> or \<open>readdir\<close> is thrown out of the loop.
\<close>

definition collides :: "'fs host \<Rightarrow> 'fs \<Rightarrow> path \<Rightarrow> error + bool" where
  "collides h s filePath =
     (if filePath \<noteq> [] \<and> pathExists h s filePath then
        (case stat h s filePath of
           Inl e \<Rightarrow> Inl e
         | Inr st \<Rightarrow>
             if isFile st \<or> isSymbolicLink st then Inr True
             else (case readdir h s filePath of
                     Inl e \<Rightarrow> Inl e
                   | Inr entries \<Rightarrow> Inr (length entries > 0)))
      else Inr False)"

fun existingPathsLoop :: "'fs host \<Rightarrow> 'fs \<Rightarrow> path list \<Rightarrow> path list \<Rightarrow> error + path list" where
  "existingPathsLoop h s [] existingPaths = Inr existingPaths"
| "existingPathsLoop h s (filePath # rest) existingPaths =
     (case collides h s filePath of
        Inl e \<Rightarrow> Inl e
      | Inr hit \<Rightarrow>
          existingPathsLoop h s rest
            (if hit then existingPaths @ [relative h filePath] else existingPaths))"

definition existingPaths :: "'fs host \<Rightarrow> path list \<Rightarrow> (path list, 'fs) prog" where
  "existingPaths h ps w =
     (case existingPathsLoop h (fsys w) ps [] of
        Inl e \<Rightarrow> (Throw e, w)
      | Inr found \<Rightarrow> (Ok found, w))"

definition collisionGuard :: "'fs host \<Rightarrow> ResolvedConfiguration \<Rightarrow> path \<Rightarrow> (unit, 'fs) prog" where
  "collisionGuard h cfg cwd =
     andThen (fs_readdir h (templateDir h (r_template cfg))) (\<lambda>fileNames.
     andThen (existingPaths h (pathValues cfg cwd fileNames)) (\<lambda>found.
       if length found > 0 then throw (InitError (CouldOverwrite found))
       else return ()))"

section \<open>Provisioning steps (lines 223-381)\<close>

text \<open>
  Modelled from the spec: \<open>benchmark\<close> of \<open>src/util/benchmark.ts\<close>, which is not among
  the sources. Section 4.4: each step reports its label as starting, runs its action,
  reports the elapsed time on success, and on failure propagates the error at once.
\<close>

definition benchmark :: "string \<Rightarrow> ('a, 'fs) prog \<Rightarrow> (unit, 'fs) prog" where
  "benchmark name callback =
     andThen (emit (StepStart name)) (\<lambda>_.
     andThen callback (\<lambda>_.
     emit (StepDone name)))"

text \<open>
  Assignment to a property: an existing key keeps its place, a new key goes last.
\<close>

fun setProp :: "string \<Rightarrow> json \<Rightarrow> (string \<times> json) list \<Rightarrow> (string \<times> json) list" where
  "setProp k v [] = [(k, v)]"
| "setProp k v ((k', v') # kvs) =
     (if k' = k then (k, v) # kvs else (k', v') # setProp k v kvs)"

text \<open>
  Lines 228-244 on the value read from \<open>package.json\<close>. The compiled module is
  strict: assigning a property of \<open>null\<close> or of a primitive throws; properties
  assigned to an array are not part of what \<open>JSON.stringify\<close> prints.
\<close>

definition editPackageJson ::
  "'fs host \<Rightarrow> InitMode \<Rightarrow> PackageManagerCommands \<Rightarrow> json \<Rightarrow> error + json" where
  "editPackageJson h template selectedPackageManager pkgJson =
     (case pkgJson of
        JObject kvs \<Rightarrow>
          Inr (JObject
            (if template = Package then
               (setProp ''scripts''
                  (JObject [(''build'', JString ''rbxtsc''), (''watch'', JString ''rbxtsc -w''),
                            (''prepublishOnly'', JString (pm_build selectedPackageManager))])
               (setProp ''publishConfig'' (JObject [(''access'', JString ''public'')])
               (setProp ''files'' (JArray [JString ''out'', JString ''!**/*.tsbuildinfo''])
               (setProp ''types'' (JString ''out/index.d.ts'')
               (setProp ''main'' (JString ''out/init.lua'')
               (setProp ''name''
                  (JString (RBXTS_SCOPE @ ''/'' @ toString h (map_of kvs ''name'')))
               (setProp ''devDependencies'' (JObject [(''@rbxts/types'', JString ''latest'')])
               (setProp ''scripts''
                  (JObject [(''build'', JString ''rbxtsc''), (''watch'', JString ''rbxtsc -w'')])
                  kvs))))))))
             else
               setProp ''devDependencies'' (JObject [(''@rbxts/types'', JString ''latest'')])
               (setProp ''scripts''
                  (JObject [(''build'', JString ''rbxtsc''), (''watch'', JString ''rbxtsc -w'')])
                  kvs)))
      | JArray xs \<Rightarrow> Inr (JArray xs)
      | _ \<Rightarrow> Inl (JsError ''TypeError''))"

definition stepPackageJson ::
  "'fs host \<Rightarrow> ResolvedConfiguration \<Rightarrow> path \<Rightarrow> (unit, 'fs) prog" where
  "stepPackageJson h cfg cwd =
     andThen (cmd h (pm_init (packageManagerCommands (r_packageManager cfg))) cwd) (\<lambda>_.
     andThen (fs_readJson h (packageJson (paths cwd))) (\<lambda>pkgJson.
       case editPackageJson h (r_template cfg)
              (packageManagerCommands (r_packageManager cfg)) pkgJson of
         Inl e \<Rightarrow> throw e
       | Inr edited \<Rightarrow> fs_outputFile h (packageJson (paths cwd)) (Json edited ''  '')))"

definition gitGuidance :: string where
  "gitGuidance = CHR 0x0A # ''Do you not have Git installed? Git CLI is required to use Git functionality. If you do not wish to use Git, answer no to \"Configure Git\".''"

text \<open>
  Lines 249-259. The \<open>catch\<close> rethrows what is not an \<open>Error\<close> (an \<open>InitError\<close>
  is not) and wraps an \<open>Error\<close> with the guidance.
\<close>

definition stepGit :: "'fs host \<Rightarrow> path \<Rightarrow> (unit, 'fs) prog" where
  "stepGit h cwd w =
     (case cmd h ''git init'' cwd w of
        (Throw (JsError message), w') \<Rightarrow> (Throw (JsError (message @ gitGuidance)), w')
      | (Throw (InitError m), w') \<Rightarrow> (Throw (InitError m), w')
      | (Exit n, w') \<Rightarrow> (Exit n, w')
      | (Ok _, w') \<Rightarrow>
          fs_outputFile h (gitignore (paths cwd))
            (Text (joinWith [CHR 0x0A] GIT_IGNORE @ [CHR 0x0A])) w')"

text \<open>Lines 263-283; an empty version string is falsy.\<close>

definition devDependencies :: "InitOptions \<Rightarrow> ResolvedConfiguration \<Rightarrow> string list" where
  "devDependencies argv cfg =
     [''roblox-ts'' @
        (case compilerVersion argv of
           Some v \<Rightarrow> if v \<noteq> [] then ''@'' @ v else []
         | None \<Rightarrow> []),
      ''@rbxts/compiler-types'' @
        (case compilerVersion argv of
           Some v \<Rightarrow> if v \<noteq> [] then ''@compiler-'' @ v else []
         | None \<Rightarrow> []),
      ''typescript'']
     @ (if r_prettier cfg then [''prettier''] else [])
     @ (if r_eslint cfg then
          [''eslint'', ''@typescript-eslint/eslint-plugin'', ''@typescript-eslint/parser'',
           ''eslint-plugin-roblox-ts'']
          @ (if r_prettier cfg then [''eslint-config-prettier'', ''eslint-plugin-prettier'']
             else [])
        else [])"

definition stepInstall ::
  "'fs host \<Rightarrow> InitOptions \<Rightarrow> ResolvedConfiguration \<Rightarrow> path \<Rightarrow> (string, 'fs) prog" where
  "stepInstall h argv cfg cwd =
     cmd h (pm_devInstall (packageManagerCommands (r_packageManager cfg)) @ '' '' @
            joinWith '' '' (devDependencies argv cfg)) cwd"

definition eslintConfig :: "ResolvedConfiguration \<Rightarrow> json" where
  "eslintConfig cfg =
     JObject
       [(''parser'', JString ''@typescript-eslint/parser''),
        (''parserOptions'',
           JObject [(''jsx'', JBool True), (''useJSXTextNode'', JBool True),
                    (''ecmaVersion'', JNumber 2018), (''sourceType'', JString ''module''),
                    (''project'', JString ''./tsconfig.json'')]),
        (''ignorePatterns'', JArray [JString ''/out'']),
        (''plugins'',
           JArray ([JString ''@typescript-eslint'', JString ''roblox-ts'']
                   @ (if r_prettier cfg then [JString ''prettier''] else []))),
        (''extends'',
           JArray ([JString ''eslint:recommended'',
                    JString ''plugin:@typescript-eslint/recommended'',
                    JString ''plugin:roblox-ts/recommended'']
                   @ (if r_prettier cfg then [JString ''plugin:prettier/recommended''] else []))),
        (''rules'',
           JObject (if r_prettier cfg then [(''prettier/prettier'', JString ''warn'')] else []))]"

definition prettierConfig :: json where
  "prettierConfig =
     JObject [(''printWidth'', JNumber 120), (''tabWidth'', JNumber 4),
              (''trailingComma'', JString ''all''), (''useTabs'', JBool True)]"

definition formatterBlock :: "string \<Rightarrow> json" where
  "formatterBlock formatter =
     JObject [(''editor.defaultFormatter'', JString formatter),
              (''editor.formatOnSave'', JBool True)]"

definition extensionsJson :: "ResolvedConfiguration \<Rightarrow> json" where
  "extensionsJson cfg =
     JObject
       [(''recommendations'',
           JArray ([JString ''roblox-ts.vscode-roblox-ts'']
                   @ (if r_eslint cfg then [JString ''dbaeumer.vscode-eslint'']
                      else if r_prettier cfg then [JString ''esbenp.prettier-vscode'']
                      else [])))]"

definition settingsJson :: "ResolvedConfiguration \<Rightarrow> json" where
  "settingsJson cfg =
     JObject
       ([(''typescript.tsdk'', JString ''node_modules/typescript/lib''),
         (''files.eol'', JString [CHR 0x0A])]
        @ (if r_eslint cfg then
             [(''[typescript]'', formatterBlock ''dbaeumer.vscode-eslint''),
              (''[typescriptreact]'', formatterBlock ''dbaeumer.vscode-eslint''),
              (''eslint.run'', JString ''onType''),
              (''eslint.format.enable'', JBool True)]
           else if r_prettier cfg then
             [(''[typescript]'', formatterBlock ''esbenp.prettier-vscode''),
              (''[typescriptreact]'', formatterBlock ''esbenp.prettier-vscode'')]
           else []))"

definition stepEslint :: "'fs host \<Rightarrow> ResolvedConfiguration \<Rightarrow> path \<Rightarrow> (unit, 'fs) prog" where
  "stepEslint h cfg cwd = fs_outputFile h (eslintrc (paths cwd)) (Json (eslintConfig cfg) [CHR 0x09])"

definition stepPrettier :: "'fs host \<Rightarrow> path \<Rightarrow> (unit, 'fs) prog" where
  "stepPrettier h cwd = fs_outputFile h (prettierrc (paths cwd)) (Json prettierConfig [CHR 0x09])"

definition stepVscode :: "'fs host \<Rightarrow> ResolvedConfiguration \<Rightarrow> path \<Rightarrow> (unit, 'fs) prog" where
  "stepVscode h cfg cwd =
     andThen (fs_outputFile h (extensions (paths cwd)) (Json (extensionsJson cfg) [CHR 0x09])) (\<lambda>_.
     fs_outputFile h (settings (paths cwd)) (Json (settingsJson cfg) [CHR 0x09]))"

definition stepCopy :: "'fs host \<Rightarrow> ResolvedConfiguration \<Rightarrow> path \<Rightarrow> (unit, 'fs) prog" where
  "stepCopy h cfg cwd = fs_copy h (templateDir h (r_template cfg)) cwd"

definition stepBuild :: "'fs host \<Rightarrow> ResolvedConfiguration \<Rightarrow> path \<Rightarrow> (string, 'fs) prog" where
  "stepBuild h cfg cwd = cmd h (pm_build (packageManagerCommands (r_packageManager cfg))) cwd"

text \<open>\<open>!argv.skipBuild\<close>: the build is skipped only for \<open>true\<close>.\<close>

definition buildWanted :: "InitOptions \<Rightarrow> bool" where
  "buildWanted argv = (skipBuild argv \<noteq> Some True)"

text \<open>Lines 225-381 as written: one awaited \<open>benchmark\<close> after the other.\<close>

definition provision ::
  "'fs host \<Rightarrow> InitOptions \<Rightarrow> ResolvedConfiguration \<Rightarrow> path \<Rightarrow> (unit, 'fs) prog" where
  "provision h argv cfg cwd =
     andThen (benchmark ''Initializing package.json..'' (stepPackageJson h cfg cwd)) (\<lambda>_.
     andThen (runIf (r_git cfg) (benchmark ''Initializing Git..'' (stepGit h cwd))) (\<lambda>_.
     andThen (benchmark ''Installing dependencies..'' (stepInstall h argv cfg cwd)) (\<lambda>_.
     andThen (runIf (r_eslint cfg) (benchmark ''Configuring ESLint..'' (stepEslint h cfg cwd))) (\<lambda>_.
     andThen (runIf (r_prettier cfg) (benchmark ''Configuring prettier..'' (stepPrettier h cwd))) (\<lambda>_.
     andThen (runIf (r_vscode cfg) (benchmark ''Configuring vscode..'' (stepVscode h cfg cwd))) (\<lambda>_.
     andThen (benchmark ''Copying template files..'' (stepCopy h cfg cwd)) (\<lambda>_.
     runIf (buildWanted argv) (benchmark ''Compiling..'' (stepBuild h cfg cwd)))))))))"

section \<open>The command\<close>

definition init :: "'fs host \<Rightarrow> InitOptions \<Rightarrow> InitMode \<Rightarrow> (unit, 'fs) prog" where
  "init h argv initMode =
     andThen (resolveDir h argv) (\<lambda>cwd.
     andThen (resolveOptions h argv initMode (probe h)) (\<lambda>cfg.
     andThen (collisionGuard h cfg cwd) (\<lambda>_.
     provision h argv cfg cwd)))"

text \<open>
  The entry point (\<open>index.ts\<close>): a rejected run sets the exit code 1,
  \<open>process.exit(n)\<close> ends with \<open>n\<close>, a fulfilled run ends with 0.
\<close>

definition exitCode :: "'a result \<Rightarrow> nat" where
  "exitCode r = (case r of Ok _ \<Rightarrow> 0 | Throw e \<Rightarrow> 1 | Exit n \<Rightarrow> n)"

section \<open>The step sequence of the specification (section 4.4)\<close>

text \<open>
  The specification describes provisioning as a sequencer over an ordered list of
  labelled steps. \<open>StepSequencer\<close> and \<open>canonicalSteps\<close> follow its words, over the
  step bodies of the source; they are compared with \<open>provision\<close> below.
\<close>

definition discard :: "('a, 'fs) prog \<Rightarrow> (unit, 'fs) prog" where
  "discard m = andThen m (\<lambda>_. return ())"

type_synonym 'fs step = "string \<times> (unit, 'fs) prog"

fun StepSequencer :: "'fs step list \<Rightarrow> (unit, 'fs) prog" where
  "StepSequencer [] = return ()"
| "StepSequencer (st # rest) = andThen (benchmark (fst st) (snd st)) (\<lambda>_. StepSequencer rest)"

definition canonicalSteps ::
  "'fs host \<Rightarrow> InitOptions \<Rightarrow> ResolvedConfiguration \<Rightarrow> path \<Rightarrow> 'fs step list" where
  "canonicalSteps h argv cfg cwd =
     [(''Initializing package.json..'', stepPackageJson h cfg cwd)]
     @ (if r_git cfg then [(''Initializing Git..'', stepGit h cwd)] else [])
     @ [(''Installing dependencies..'', discard (stepInstall h argv cfg cwd))]
     @ (if r_eslint cfg then [(''Configuring ESLint..'', stepEslint h cfg cwd)] else [])
     @ (if r_prettier cfg then [(''Configuring prettier..'', stepPrettier h cwd)] else [])
     @ (if r_vscode cfg then [(''Configuring vscode..'', stepVscode h cfg cwd)] else [])
     @ [(''Copying template files..'', stepCopy h cfg cwd)]
     @ (if buildWanted argv then [(''Compiling..'', discard (stepBuild h cfg cwd))] else [])"

text \<open>The event a \<open>cmd\<close> call leaves in the trace.\<close>

definition spawnOf :: "string \<Rightarrow> path \<Rightarrow> event" where
  "spawnOf cmdStr cwd =
     Spawn (hd (splitOn CHR '' '' cmdStr)) (tl (splitOn CHR '' '' cmdStr)) cwd"

text \<open>An event without the payload of a written file.\<close>

fun outline :: "event \<Rightarrow> event" where
  "outline (OutputFile p c) = OutputFile p (Text [])"
| "outline e = e"

text \<open>
  The canonical order in the words of the specification: each enabled step with the
  effects it performs, in order, the build being left out exactly when skip-build is
  set. A step is bracketed by its start and end reports.
\<close>

definition canonicalEffects ::
  "'fs host \<Rightarrow> InitOptions \<Rightarrow> ResolvedConfiguration \<Rightarrow> path \<Rightarrow> (string \<times> event list) list" where
  "canonicalEffects h argv cfg cwd =
     [(''Initializing package.json..'',
        [spawnOf (pm_init (packageManagerCommands (r_packageManager cfg))) cwd,
         OutputFile (packageJson (paths cwd)) (Text [])])]
     @ (if r_git cfg then
          [(''Initializing Git..'',
             [spawnOf ''git init'' cwd, OutputFile (gitignore (paths cwd)) (Text [])])]
        else [])
     @ [(''Installing dependencies..'',
          [spawnOf (pm_devInstall (packageManagerCommands (r_packageManager cfg)) @ '' '' @
                    joinWith '' '' (devDependencies argv cfg)) cwd])]
     @ (if r_eslint cfg then
          [(''Configuring ESLint..'', [OutputFile (eslintrc (paths cwd)) (Text [])])]
        else [])
     @ (if r_prettier cfg then
          [(''Configuring prettier..'', [OutputFile (prettierrc (paths cwd)) (Text [])])]
        else [])
     @ (if r_vscode cfg then
          [(''Configuring vscode..'',
             [OutputFile (extensions (paths cwd)) (Text []),
              OutputFile (settings (paths cwd)) (Text [])])]
        else [])
     @ [(''Copying template files..'', [Copy (templateDir h (r_template cfg)) cwd])]
     @ (if skipBuild argv = Some True then []
        else
          [(''Compiling..'',
             [spawnOf (pm_build (packageManagerCommands (r_packageManager cfg))) cwd])])"

definition bracket :: "string \<times> event list \<Rightarrow> event list" where
  "bracket st = StepStart (fst st) # snd st @ [StepDone (fst st)]"

fun stepsStarted :: "event list \<Rightarrow> string list" where
  "stepsStarted [] = []"
| "stepsStarted (StepStart l # es) = l # stepsStarted es"
| "stepsStarted (e # es) = stepsStarted es"

fun stepsFinished :: "event list \<Rightarrow> string list" where
  "stepsFinished [] = []"
| "stepsFinished (StepDone l # es) = l # stepsFinished es"
| "stepsFinished (e # es) = stepsFinished es"

fun isReport :: "event \<Rightarrow> bool" where
  "isReport (StepStart l) = True"
| "isReport (StepDone l) = True"
| "isReport e = False"

section \<open>Properties of programs used in the proofs\<close>

text \<open>The events of the interaction, and the events of the provisioning steps.\<close>

fun isPrompt :: "event \<Rightarrow> bool" where
  "isPrompt (Asked q) = True"
| "isPrompt e = False"

fun isProvisioning :: "event \<Rightarrow> bool" where
  "isProvisioning (Asked q) = False"
| "isProvisioning (EnsureDir p) = False"
| "isProvisioning e = True"

text \<open>Every event a program adds to the trace lies in a given set.\<close>

definition emits :: "event set \<Rightarrow> ('a, 'fs) prog \<Rightarrow> bool" where
  "emits S m =
     (\<forall>w. \<exists>evs. trace (snd (m w)) = trace w @ evs \<and> set evs \<subseteq> S)"

text \<open>A program that never ends the process.\<close>

definition noExit :: "('a, 'fs) prog \<Rightarrow> bool" where
  "noExit m = (\<forall>w n. fst (m w) \<noteq> Exit n)"

text \<open>The user cancels the prompt of the given name.\<close>

definition cancelled :: "'fs host \<Rightarrow> string \<Rightarrow> bool" where
  "cancelled h q =
     ((q = ''dir'' \<and> textReply h q = Cancel)
      \<or> (q \<in> {''git'', ''eslint'', ''prettier'', ''vscode''} \<and> confirmReply h q = Cancel)
      \<or> (q \<in> {''template'', ''packageManager''} \<and> selectReply h q = Cancel))"

text \<open>
  Either the program exits with status 1 right after a prompt that was cancelled, or it
  does not exit and no prompt it showed was cancelled.
\<close>

definition heeds :: "'fs host \<Rightarrow> ('a, 'fs) prog \<Rightarrow> bool" where
  "heeds h m =
     (\<forall>w. \<exists>evs. trace (snd (m w)) = trace w @ evs \<and>
        ((fst (m w) = Exit 1 \<and> evs \<noteq> [] \<and> (\<exists>q. last evs = Asked q \<and> cancelled h q)) \<or>
         ((\<forall>n. fst (m w) \<noteq> Exit n) \<and> (\<forall>q. Asked q \<in> set evs \<longrightarrow> \<not> cancelled h q))))"

text \<open>
  The trace of a program follows an expected outline: always a prefix of it, and all
  of it when the program returns.
\<close>

definition follows :: "event list \<Rightarrow> ('a, 'fs) prog \<Rightarrow> bool" where
  "follows expected m =
     (\<forall>w. \<exists>evs. trace (snd (m w)) = trace w @ evs \<and>
        prefix (map outline evs) expected \<and>
        ((\<exists>a. fst (m w) = Ok a) \<longrightarrow> map outline evs = expected))"

section \<open>A scripted host for concrete runs\<close>

text \<open>
  A file system as an association list from paths to nodes (the newest binding first),
  a user who answers from a script, and commands that exit with a scripted code. A
  successful \<open>init\<close> of a package manager creates \<open>package.json\<close>.
\<close>

datatype node = FileNode | LinkNode path | DirNode "string list" | OtherNode

type_synonym disk = "(path \<times> node) list"

text \<open>
  \<open>fs.pathExists\<close>, \<open>fs.stat\<close>, \<open>fs.readdir\<close> and \<open>fs.readJson\<close> follow symbolic
  links: they see the node a chain of links ends in (at most 40 links, as the kernel
  allows), and nothing at a link whose target is missing. A \<open>stat\<close> that follows links
  never reports a symbolic link.
\<close>

fun follow :: "nat \<Rightarrow> disk \<Rightarrow> path \<Rightarrow> node option" where
  "follow 0 d p = None"
| "follow (Suc n) d p =
     (case map_of d p of
        None \<Rightarrow> None
      | Some (LinkNode target) \<Rightarrow> follow n d target
      | Some x \<Rightarrow> Some x)"

definition diskExists :: "disk \<Rightarrow> path \<Rightarrow> bool" where
  "diskExists d p = (follow 40 d p \<noteq> None)"

definition diskStat :: "disk \<Rightarrow> path \<Rightarrow> error + stats" where
  "diskStat d p =
     (case follow 40 d p of
        None \<Rightarrow> Inl (JsError ''ENOENT'')
      | Some FileNode \<Rightarrow> Inr \<lparr>isFile = True, isSymbolicLink = False, isDirectory = False\<rparr>
      | Some (DirNode es) \<Rightarrow> Inr \<lparr>isFile = False, isSymbolicLink = False, isDirectory = True\<rparr>
      | Some x \<Rightarrow> Inr \<lparr>isFile = False, isSymbolicLink = False, isDirectory = False\<rparr>)"

definition diskReaddir :: "disk \<Rightarrow> path \<Rightarrow> error + string list" where
  "diskReaddir d p =
     (case follow 40 d p of
        None \<Rightarrow> Inl (JsError ''ENOENT'')
      | Some (DirNode es) \<Rightarrow> Inr es
      | Some x \<Rightarrow> Inl (JsError ''ENOTDIR''))"

definition diskReadJson :: "disk \<Rightarrow> path \<Rightarrow> error + json" where
  "diskReadJson d p =
     (case follow 40 d p of
        Some FileNode \<Rightarrow> Inr (JObject [(''name'', JString ''proj''), (''version'', JString ''1.0.0'')])
      | x \<Rightarrow> Inl (JsError ''ENOENT''))"

text \<open>
  \<open>fs.outputFile\<close> writes through symbolic links, to the path a chain of links ends
  at, and fails there at a directory.
\<close>

fun linkTarget :: "nat \<Rightarrow> disk \<Rightarrow> path \<Rightarrow> path" where
  "linkTarget 0 d p = p"
| "linkTarget (Suc n) d p =
     (case map_of d p of
        Some (LinkNode target) \<Rightarrow> linkTarget n d target
      | x \<Rightarrow> p)"

definition diskOutputFile :: "path \<Rightarrow> payload \<Rightarrow> disk \<Rightarrow> error option \<times> disk" where
  "diskOutputFile p c d =
     (case map_of d (linkTarget 40 d p) of
        Some (DirNode es) \<Rightarrow> (Some (JsError ''EISDIR''), d)
      | Some (LinkNode target) \<Rightarrow> (Some (JsError ''ELOOP''), d)
      | Some OtherNode \<Rightarrow> (None, d)
      | x \<Rightarrow> (None, (linkTarget 40 d p, FileNode) # d))"

definition diskSpawn ::
  "(string \<Rightarrow> int option) \<Rightarrow> string \<Rightarrow> string list \<Rightarrow> path \<Rightarrow> disk \<Rightarrow> spawned \<times> disk" where
  "diskSpawn exitOf command args cwd d =
     (Closed (exitOf command) [],
      if exitOf command = Some 0 \<and> args \<noteq> [] \<and> hd args = ''init'' \<and> command \<noteq> ''git''
      then (path_join cwd ''package.json'', FileNode) # d else d)"

definition scriptedHost ::
  "(string \<Rightarrow> string option settled) \<Rightarrow> (string \<Rightarrow> bool reply) \<Rightarrow> (string \<Rightarrow> int option)
     \<Rightarrow> disk host" where
  "scriptedHost lookups confirms exitOf =
     \<lparr>lookpath = lookups,
      textReply = (\<lambda>q. Answer ''proj''),
      confirmReply = confirms,
      selectReply = (\<lambda>q. Answer 0),
      resolve = (\<lambda>d. ''/work/'' @ d),
      relative = drop 6,
      packageRoot = ''/opt/crt'',
      toString = (\<lambda>v. case v of Some (JString s) \<Rightarrow> s | _ \<Rightarrow> ''undefined''),
      pathExists = diskExists,
      stat = diskStat,
      readdir = diskReaddir,
      readJson = diskReadJson,
      ensureDir = (\<lambda>p d. (None, (p, DirNode []) # d)),
      outputFile = diskOutputFile,
      copy = (\<lambda>src dst d. (None, d)),
      spawn = diskSpawn exitOf\<rparr>"

definition allInstalled :: "string \<Rightarrow> string option settled" where
  "allInstalled t = Fulfilled (Some (''/usr/bin/'' @ t))"

definition pnpmOnly :: "string \<Rightarrow> string option settled" where
  "pnpmOnly t = (if t = ''pnpm'' then Fulfilled (Some ''/usr/bin/pnpm'') else Fulfilled None)"

definition npmOnly :: "string \<Rightarrow> string option settled" where
  "npmOnly t =
     (if t = ''npm'' then Fulfilled (Some ''/usr/bin/npm'')
      else if t = ''git'' then Rejected (JsError ''EACCES'')
      else Fulfilled None)"

definition templatesOnly :: disk where
  "templatesOnly = [(''/opt/crt/templates/game'', DirNode [''src'', ''default.project.json''])]"

definition occupied :: disk where
  "occupied =
     [(''/work/proj'', DirNode [''.eslintrc'', ''src'']),
      (''/work/proj/.eslintrc'', FileNode),
      (''/work/proj/src'', DirNode []),
      (''/opt/crt/templates/game'', DirNode [''src'', ''default.project.json''])]"

text \<open>
  The target holds \<open>.gitignore\<close> as a symbolic link to an existing empty directory.
\<close>

definition linked :: disk where
  "linked =
     [(''/work/proj'', DirNode [''.gitignore'']),
      (''/work/proj/.gitignore'', LinkNode ''/work/empty''),
      (''/work/empty'', DirNode []),
      (''/opt/crt/templates/game'', DirNode [''src'', ''default.project.json''])]"

text \<open>The occupied target with a named pipe at \<open>.gitignore\<close>.\<close>

definition piped :: disk where
  "piped = (''/work/proj/.gitignore'', OtherNode) # occupied"

definition noOptions :: InitOptions where
  "noOptions =
     \<lparr>compilerVersion = None, dir = Some ''proj'', yes = None, git = None, eslint = None,
      prettier = None, vscode = None, packageManager = None, skipBuild = None\<rparr>"

definition start :: "disk \<Rightarrow> disk world" where
  "start d = \<lparr>fsys = d, trace = []\<rparr>"

section \<open>Sequencing\<close>

lemma andThen_Ok: "m w = (Ok a, w') \<Longrightarrow> andThen m f w = f a w'"
  by (simp add: andThen_def)

lemma andThen_Throw: "m w = (Throw e, w') \<Longrightarrow> andThen m f w = (Throw e, w')"
  by (simp add: andThen_def)

lemma andThen_Exit: "m w = (Exit n, w') \<Longrightarrow> andThen m f w = (Exit n, w')"
  by (simp add: andThen_def)

lemma andThen_cases:
  obtains (ok) a w' where "m w = (Ok a, w')" "andThen m f w = f a w'"
  | (throw) e w' where "m w = (Throw e, w')" "andThen m f w = (Throw e, w')"
  | (exit) n w' where "m w = (Exit n, w')" "andThen m f w = (Exit n, w')"
proof (cases "m w")
  case (Pair r w')
  then show ?thesis
    by (cases r) (auto simp: andThen_def intro: ok throw exit)
qed

lemma andThen_OkE:
  assumes "andThen m f w = (Ok b, w2)"
  obtains a w1 where "m w = (Ok a, w1)" "f a w1 = (Ok b, w2)"
  using assms by (cases rule: andThen_cases [of m w f]) auto

lemma return_andThen [simp]: "andThen (return x) f = f x"
  by (rule ext) (simp add: andThen_def return_def)

section \<open>Tool availability\<close>

lemma length_probe: "length (probe h) = 4"
  by (simp add: probe_def tools_def)

lemma available_iff: "available v = (v \<noteq> Fulfilled None)"
  by (cases v) (auto simp: available_def)

lemma deliver_snoc: "deliver (evs @ [ev]) g = settle ev (deliver evs g)"
  by (simp add: deliver_def)

lemma map_filter_Some: "List.map_filter (\<lambda>x. x) (map (\<lambda>i. Some (f i)) xs) = map f xs"
  by (induction xs) (simp_all add: List.map_filter_simps)

lemma slots_update:
  assumes "x < n"
  shows "(map (\<lambda>i. if i \<in> A then Some (f i) else None) [0..<n])[x := Some (f x)]
           = map (\<lambda>i. if i \<in> insert x A then Some (f i) else None) [0..<n]"
proof (rule nth_equalityI)
  show "length ((map (\<lambda>i. if i \<in> A then Some (f i) else None) [0..<n])[x := Some (f x)])
      = length (map (\<lambda>i. if i \<in> insert x A then Some (f i) else None) [0..<n])"
    by simp
next
  fix i
  assume "i < length ((map (\<lambda>i. if i \<in> A then Some (f i) else None) [0..<n])[x := Some (f x)])"
  then have "i < n" by simp
  with assms show "(map (\<lambda>i. if i \<in> A then Some (f i) else None) [0..<n])[x := Some (f x)] ! i
      = map (\<lambda>i. if i \<in> insert x A then Some (f i) else None) [0..<n] ! i"
    by (simp add: nth_list_update)
qed

lemma distinct_bounded_length:
  assumes "distinct xs" and "set xs \<subseteq> {0..<n}"
  shows "length xs \<le> n"
proof -
  from assms(1) have "length xs = card (set xs)" by (simp add: distinct_card)
  also from assms(2) have "\<dots> \<le> card {0..<n}" by (intro card_mono) simp_all
  finally show ?thesis by simp
qed

lemma distinct_full:
  assumes "distinct xs" and "set xs \<subseteq> {0..<n}" and "length xs = n"
  shows "set xs = {0..<n}"
proof -
  from assms(1,3) have "card (set xs) = card {0..<n}" by (simp add: distinct_card)
  with assms(2) show ?thesis by (intro card_subset_eq) simp_all
qed

lemma deliver_allSettled:
  assumes "distinct xs" and "set xs \<subseteq> {0..<n}"
  shows "slots (deliver (map (\<lambda>i. (i, f i)) xs) (allSettled n))
           = map (\<lambda>i. if i \<in> set xs then Some (f i) else None) [0..<n]
       \<and> remaining (deliver (map (\<lambda>i. (i, f i)) xs) (allSettled n)) = n - length xs
       \<and> outcome (deliver (map (\<lambda>i. (i, f i)) xs) (allSettled n))
           = (if length xs = n then FulfilledWith (map f [0..<n]) else Pending)"
  using assms
proof (induction xs rule: rev_induct)
  case Nil
  show ?case by (auto simp: deliver_def allSettled_def map_replicate_const)
next
  case (snoc x xs)
  let ?g = "deliver (map (\<lambda>i. (i, f i)) xs) (allSettled n)"
  from snoc.prems have d: "distinct xs" and fresh: "x \<notin> set xs" and sub: "set xs \<subseteq> {0..<n}"
    and x: "x < n"
    by auto
  from snoc.IH [OF d sub] have
    s: "slots ?g = map (\<lambda>i. if i \<in> set xs then Some (f i) else None) [0..<n]"
    and r: "remaining ?g = n - length xs"
    and o: "outcome ?g = (if length xs = n then FulfilledWith (map f [0..<n]) else Pending)"
    by simp_all
  from distinct_bounded_length [OF snoc.prems] have len: "length xs < n" by simp
  have run: "deliver (map (\<lambda>i. (i, f i)) (xs @ [x])) (allSettled n) = settle (x, f x) ?g"
    by (simp add: deliver_snoc)
  have free: "fst (x, f x) < length (slots ?g) \<and> slots ?g ! fst (x, f x) = None"
    using x fresh by (simp add: s)
  have s': "(slots ?g)[x := Some (f x)]
      = map (\<lambda>i. if i \<in> set (xs @ [x]) then Some (f i) else None) [0..<n]"
    using slots_update [OF x, of "set xs" f] by (simp add: s)
  have o': "(if remaining ?g - 1 = 0
            then FulfilledWith (List.map_filter (\<lambda>x. x) ((slots ?g)[x := Some (f x)]))
            else outcome ?g)
      = (if length (xs @ [x]) = n then FulfilledWith (map f [0..<n]) else Pending)"
  proof (cases "length (xs @ [x]) = n")
    case True
    from distinct_full [OF snoc.prems True] have "set (xs @ [x]) = {0..<n}" .
    then have "map (\<lambda>i. if i \<in> set (xs @ [x]) then Some (f i) else None) [0..<n]
        = map (\<lambda>i. Some (f i)) [0..<n]"
      by (intro map_cong) simp_all
    with s' have "List.map_filter (\<lambda>x. x) ((slots ?g)[x := Some (f x)]) = map f [0..<n]"
      by (simp only: map_filter_Some)
    moreover from True r have "remaining ?g - 1 = 0" by simp
    ultimately show ?thesis using True by simp
  next
    case False
    with len r have "remaining ?g - 1 \<noteq> 0" by simp
    moreover from len o have "outcome ?g = Pending" by simp
    ultimately show ?thesis using False by simp
  qed
  have st: "settle (x, f x) ?g =
      \<lparr>slots = (slots ?g)[x := Some (f x)], remaining = remaining ?g - 1,
       outcome = (if remaining ?g - 1 = 0
            then FulfilledWith (List.map_filter (\<lambda>x. x) ((slots ?g)[x := Some (f x)]))
            else outcome ?g)\<rparr>"
    using free by (simp add: settle_def)
  have r': "remaining ?g - 1 = n - length (xs @ [x])"
    using r by simp
  have 1: "slots (settle (x, f x) ?g)
      = map (\<lambda>i. if i \<in> set (xs @ [x]) then Some (f i) else None) [0..<n]"
    by (simp only: st gathering.select_convs s')
  have 2: "remaining (settle (x, f x) ?g) = n - length (xs @ [x])"
    by (simp only: st gathering.select_convs r')
  have 3: "outcome (settle (x, f x) ?g)
      = (if length (xs @ [x]) = n then FulfilledWith (map f [0..<n]) else Pending)"
    by (simp only: st gathering.select_convs o')
  from 1 2 3 show ?case unfolding run by (intro conjI)
qed

lemma map_tools: "map (\<lambda>i. lookpath h (tools ! i)) [0..<length tools] = map (lookpath h) tools"
  by (rule nth_equalityI) simp_all

text \<open>
  C4. Let the four lookups settle once each, in any order. Then the awaited promise is
  pending after every proper part of the settlements and is fulfilled at the last one:
  it is never rejected, whatever the lookups settle with, and its value, the same for
  every order, is \<open>probe\<close>, one flag per tool of the fixed list. The flag of a tool is
  false exactly when its lookup is fulfilled with "not found"; a lookup that is found,
  and a lookup that is rejected for any reason, give true.
\<close>

theorem probe_settles:
  assumes "distinct order" and "set order = {0..<length tools}"
  shows "probeAfter h order = FulfilledWith (probe h)
       \<and> (\<forall>k<length order. probeAfter h (take k order) = Pending)
       \<and> length (probe h) = length tools
       \<and> npmAvailable (probe h) = (lookpath h ''npm'' \<noteq> Fulfilled None)
       \<and> pnpmAvailable (probe h) = (lookpath h ''pnpm'' \<noteq> Fulfilled None)
       \<and> yarnAvailable (probe h) = (lookpath h ''yarn'' \<noteq> Fulfilled None)
       \<and> gitAvailable (probe h) = (lookpath h ''git'' \<noteq> Fulfilled None)"
proof -
  let ?f = "\<lambda>i. lookpath h (tools ! i)"
  let ?n = "length tools"
  from assms have sub: "set order \<subseteq> {0..<?n}" by simp
  from assms(1) have "length order = card (set order)" by (simp add: distinct_card)
  with assms(2) have len: "length order = ?n" by simp
  from deliver_allSettled [OF assms(1) sub, of ?f] len
  have "outcome (deliver (map (\<lambda>i. (i, ?f i)) order) (allSettled ?n))
      = FulfilledWith (map ?f [0..<?n])"
    by simp
  then have whole: "probeAfter h order = FulfilledWith (probe h)"
    by (simp add: probeAfter_def probe_def map_tools)
  have part: "\<forall>k<length order. probeAfter h (take k order) = Pending"
  proof (intro allI impI)
    fix k assume k: "k < length order"
    from assms(1) have d: "distinct (take k order)" by simp
    from sub have s: "set (take k order) \<subseteq> {0..<?n}"
      by (meson in_set_takeD subset_iff)
    from k len have "length (take k order) \<noteq> ?n" by simp
    with deliver_allSettled [OF d s, of ?f]
    have "outcome (deliver (map (\<lambda>i. (i, ?f i)) (take k order)) (allSettled ?n)) = Pending"
      by simp
    then show "probeAfter h (take k order) = Pending"
      by (simp add: probeAfter_def)
  qed
  have flags: "length (probe h) = length tools
       \<and> npmAvailable (probe h) = (lookpath h ''npm'' \<noteq> Fulfilled None)
       \<and> pnpmAvailable (probe h) = (lookpath h ''pnpm'' \<noteq> Fulfilled None)
       \<and> yarnAvailable (probe h) = (lookpath h ''yarn'' \<noteq> Fulfilled None)
       \<and> gitAvailable (probe h) = (lookpath h ''git'' \<noteq> Fulfilled None)"
    by (simp add: probe_def tools_def npmAvailable_def pnpmAvailable_def yarnAvailable_def
        gitAvailable_def available_iff)
  from whole part flags show ?thesis by (intro conjI) simp_all
qed

section \<open>Events added to the trace\<close>

lemma emitsI:
  assumes "\<And>w. \<exists>evs. trace (snd (m w)) = trace w @ evs \<and> set evs \<subseteq> S"
  shows "emits S m"
  using assms by (simp add: emits_def)

lemma emitsD:
  assumes "emits S m"
  obtains evs where "trace (snd (m w)) = trace w @ evs" "set evs \<subseteq> S"
  using assms unfolding emits_def by blast

lemma emits_mono: "emits S m \<Longrightarrow> S \<subseteq> T \<Longrightarrow> emits T m"
  unfolding emits_def by (meson subset_trans)

lemma emits_return [simp]: "emits S (return x)"
  by (simp add: emits_def return_def)

lemma emits_throw [simp]: "emits S (throw e)"
  by (simp add: emits_def throw_def)

lemma emits_processExit [simp]: "emits S (processExit n)"
  by (simp add: emits_def processExit_def)

lemma emits_emit: "e \<in> S \<Longrightarrow> emits S (emit e)"
  by (simp add: emits_def emit_def)

lemma emits_andThen:
  assumes m: "emits S m" and f: "\<And>a. emits S (f a)"
  shows "emits S (andThen m f)"
proof (rule emitsI)
  fix w
  obtain evs1 where e1: "trace (snd (m w)) = trace w @ evs1" "set evs1 \<subseteq> S"
    using m by (rule emitsD)
  show "\<exists>evs. trace (snd (andThen m f w)) = trace w @ evs \<and> set evs \<subseteq> S"
  proof (cases rule: andThen_cases [of m w f])
    case (ok a w')
    obtain evs2 where e2: "trace (snd (f a w')) = trace w' @ evs2" "set evs2 \<subseteq> S"
      using f by (rule emitsD)
    from ok e1 e2 have "trace (snd (andThen m f w)) = trace w @ (evs1 @ evs2)" by simp
    moreover from e1 e2 have "set (evs1 @ evs2) \<subseteq> S" by simp
    ultimately show ?thesis by blast
  next
    case (throw e w')
    with e1 show ?thesis by auto
  next
    case (exit n w')
    with e1 show ?thesis by auto
  qed
qed

lemma emits_runIf: "(b \<Longrightarrow> emits S m) \<Longrightarrow> emits S (runIf b m)"
  by (simp add: runIf_def)

lemma emits_fs_pathExists [simp]: "emits S (fs_pathExists h p)"
  by (simp add: emits_def fs_pathExists_def)

lemma emits_fs_stat [simp]: "emits S (fs_stat h p)"
  by (simp add: emits_def fs_stat_def split: sum.splits)

lemma emits_fs_readdir [simp]: "emits S (fs_readdir h p)"
  by (simp add: emits_def fs_readdir_def split: sum.splits)

lemma emits_fs_readJson [simp]: "emits S (fs_readJson h p)"
  by (simp add: emits_def fs_readJson_def split: sum.splits)

lemma emits_existingPaths [simp]: "emits S (existingPaths h ps)"
  by (simp add: emits_def existingPaths_def split: sum.splits)

lemma emits_mutate: "ev \<in> S \<Longrightarrow> emits S (mutate ev f)"
  by (simp add: emits_def mutate_def split: prod.splits option.splits)

lemma emits_cmd: "spawnOf c cwd \<in> S \<Longrightarrow> emits S (cmd h c cwd)"
  by (simp add: emits_def cmd_def spawnOf_def Let_def split: prod.splits spawned.splits)

lemma emits_benchmark:
  "StepStart n \<in> S \<Longrightarrow> StepDone n \<in> S \<Longrightarrow> emits S cb \<Longrightarrow> emits S (benchmark n cb)"
  by (simp add: benchmark_def emits_andThen emits_emit)

lemma emits_askText: "(applies \<Longrightarrow> Asked name \<in> S) \<Longrightarrow> emits S (askText h applies name)"
  by (auto simp: askText_def intro!: emits_andThen emits_emit split: reply.splits)

lemma emits_askConfirm: "(applies \<Longrightarrow> Asked name \<in> S) \<Longrightarrow> emits S (askConfirm h applies name)"
  by (auto simp: askConfirm_def intro!: emits_andThen emits_emit split: reply.splits)

lemma emits_askSelect: "(applies \<Longrightarrow> Asked name \<in> S) \<Longrightarrow> emits S (askSelect h applies name cs)"
  by (auto simp: askSelect_def intro!: emits_andThen emits_emit split: reply.splits)

lemma emits_stepGit:
  assumes "spawnOf ''git init'' cwd \<in> S" and "\<And>c. OutputFile (gitignore (paths cwd)) c \<in> S"
  shows "emits S (stepGit h cwd)"
proof (rule emitsI)
  fix w
  obtain evs1 where e1: "trace (snd (cmd h ''git init'' cwd w)) = trace w @ evs1" "set evs1 \<subseteq> S"
    using emits_cmd [OF assms(1)] by (rule emitsD)
  show "\<exists>evs. trace (snd (stepGit h cwd w)) = trace w @ evs \<and> set evs \<subseteq> S"
  proof (cases "cmd h ''git init'' cwd w")
    case (Pair r w')
    show ?thesis
    proof (cases r)
      case (Ok out)
      obtain evs2 where e2: "trace (snd (fs_outputFile h (gitignore (paths cwd))
            (Text (joinWith [CHR 0x0A] GIT_IGNORE @ [CHR 0x0A])) w')) = trace w' @ evs2" "set evs2 \<subseteq> S"
        using emits_mutate [OF assms(2)] unfolding fs_outputFile_def by (rule emitsD)
      from Pair Ok e1 e2 have "trace (snd (stepGit h cwd w)) = trace w @ (evs1 @ evs2)"
        by (simp add: stepGit_def)
      moreover from e1 e2 have "set (evs1 @ evs2) \<subseteq> S" by simp
      ultimately show ?thesis by blast
    next
      case (Throw e)
      with Pair e1 show ?thesis by (cases e) (auto simp: stepGit_def)
    next
      case (Exit n)
      with Pair e1 show ?thesis by (auto simp: stepGit_def)
    qed
  qed
qed

section \<open>Configuration resolution\<close>

lemma askConfirm_OkD:
  "askConfirm h applies name w = (Ok a, w') \<Longrightarrow> \<not> applies \<Longrightarrow> a = None"
  by (simp add: askConfirm_def return_def)

lemma askSelect_OkD:
  "askSelect h applies name cs w = (Ok a, w') \<Longrightarrow> \<not> applies \<Longrightarrow> a = None"
  by (simp add: askSelect_def return_def)

lemma askSelect_member:
  "askSelect h applies name cs w = (Ok (Some x), w') \<Longrightarrow> x \<in> set cs"
proof -
  have pick: "cs \<noteq> [] \<Longrightarrow> cs ! min i (length cs - 1) \<in> set cs" for i
    by (rule nth_mem) (cases cs, auto)
  assume "askSelect h applies name cs w = (Ok (Some x), w')"
  then show ?thesis
    using pick
    by (auto simp: askSelect_def return_def processExit_def andThen_def emit_def
        simp del: One_nat_def split: if_splits reply.splits)
qed

lemma resolveOptions_OkE:
  assumes "resolveOptions h argv initMode av w = (Ok cfg, w')"
  obtains t g e p v m where
    "cfg = applyDefaults argv initMode av
       \<lparr>a_template = t, a_git = g, a_eslint = e, a_prettier = p, a_vscode = v,
        a_packageManager = m\<rparr>"
    "initMode \<noteq> NoneMode \<Longrightarrow> t = None"
    "\<not> (git argv = None \<and> yes argv = None \<and> gitAvailable av) \<Longrightarrow> g = None"
    "\<not> (eslint argv = None \<and> yes argv = None) \<Longrightarrow> e = None"
    "\<not> (prettier argv = None \<and> yes argv = None) \<Longrightarrow> p = None"
    "\<not> (vscode argv = None \<and> yes argv = None) \<Longrightarrow> v = None"
    "\<not> (packageManager argv = None \<and> packageManagerCount av > 1 \<and> yes argv = None) \<Longrightarrow> m = None"
    "\<And>x. t = Some x \<Longrightarrow> x \<in> {Game, Model, Plugin, Package}"
    "\<And>x. m = Some x \<Longrightarrow> packageManagerExistance av x"
proof -
  from assms obtain t w1 where
    t: "askSelect h (initMode = NoneMode) ''template'' [Game, Model, Plugin, Package] w = (Ok t, w1)"
    and r1: "andThen (askConfirm h (git argv = None \<and> yes argv = None \<and> gitAvailable av) ''git'')
       (\<lambda>g.
     andThen (askConfirm h (eslint argv = None \<and> yes argv = None) ''eslint'')
       (\<lambda>e.
     andThen (askConfirm h (prettier argv = None \<and> yes argv = None) ''prettier'')
       (\<lambda>p.
     andThen (askConfirm h (vscode argv = None \<and> yes argv = None) ''vscode'')
       (\<lambda>v.
     andThen (askSelect h
                (packageManager argv = None \<and> packageManagerCount av > 1 \<and> yes argv = None)
                ''packageManager'' (packageManagerChoices av))
       (\<lambda>m.
     return (applyDefaults argv initMode av
       \<lparr>a_template = t, a_git = g, a_eslint = e, a_prettier = p, a_vscode = v,
        a_packageManager = m\<rparr>)))))) w1 = (Ok cfg, w')"
    unfolding resolveOptions_def by (erule andThen_OkE)
  from r1 obtain g w2 where
    g: "askConfirm h (git argv = None \<and> yes argv = None \<and> gitAvailable av) ''git'' w1 = (Ok g, w2)"
    and r2: "andThen (askConfirm h (eslint argv = None \<and> yes argv = None) ''eslint'')
       (\<lambda>e.
     andThen (askConfirm h (prettier argv = None \<and> yes argv = None) ''prettier'')
       (\<lambda>p.
     andThen (askConfirm h (vscode argv = None \<and> yes argv = None) ''vscode'')
       (\<lambda>v.
     andThen (askSelect h
                (packageManager argv = None \<and> packageManagerCount av > 1 \<and> yes argv = None)
                ''packageManager'' (packageManagerChoices av))
       (\<lambda>m.
     return (applyDefaults argv initMode av
       \<lparr>a_template = t, a_git = g, a_eslint = e, a_prettier = p, a_vscode = v,
        a_packageManager = m\<rparr>))))) w2 = (Ok cfg, w')"
    by (erule andThen_OkE)
  from r2 obtain e w3 where
    e: "askConfirm h (eslint argv = None \<and> yes argv = None) ''eslint'' w2 = (Ok e, w3)"
    and r3: "andThen (askConfirm h (prettier argv = None \<and> yes argv = None) ''prettier'')
       (\<lambda>p.
     andThen (askConfirm h (vscode argv = None \<and> yes argv = None) ''vscode'')
       (\<lambda>v.
     andThen (askSelect h
                (packageManager argv = None \<and> packageManagerCount av > 1 \<and> yes argv = None)
                ''packageManager'' (packageManagerChoices av))
       (\<lambda>m.
     return (applyDefaults argv initMode av
       \<lparr>a_template = t, a_git = g, a_eslint = e, a_prettier = p, a_vscode = v,
        a_packageManager = m\<rparr>)))) w3 = (Ok cfg, w')"
    by (erule andThen_OkE)
  from r3 obtain p w4 where
    p: "askConfirm h (prettier argv = None \<and> yes argv = None) ''prettier'' w3 = (Ok p, w4)"
    and r4: "andThen (askConfirm h (vscode argv = None \<and> yes argv = None) ''vscode'')
       (\<lambda>v.
     andThen (askSelect h
                (packageManager argv = None \<and> packageManagerCount av > 1 \<and> yes argv = None)
                ''packageManager'' (packageManagerChoices av))
       (\<lambda>m.
     return (applyDefaults argv initMode av
       \<lparr>a_template = t, a_git = g, a_eslint = e, a_prettier = p, a_vscode = v,
        a_packageManager = m\<rparr>))) w4 = (Ok cfg, w')"
    by (erule andThen_OkE)
  from r4 obtain v w5 where
    v: "askConfirm h (vscode argv = None \<and> yes argv = None) ''vscode'' w4 = (Ok v, w5)"
    and r5: "andThen (askSelect h
                (packageManager argv = None \<and> packageManagerCount av > 1 \<and> yes argv = None)
                ''packageManager'' (packageManagerChoices av))
       (\<lambda>m.
     return (applyDefaults argv initMode av
       \<lparr>a_template = t, a_git = g, a_eslint = e, a_prettier = p, a_vscode = v,
        a_packageManager = m\<rparr>)) w5 = (Ok cfg, w')"
    by (erule andThen_OkE)
  from r5 obtain m w6 where
    m: "askSelect h
                (packageManager argv = None \<and> packageManagerCount av > 1 \<and> yes argv = None)
                ''packageManager'' (packageManagerChoices av) w5 = (Ok m, w6)"
    and r6: "return (applyDefaults argv initMode av
       \<lparr>a_template = t, a_git = g, a_eslint = e, a_prettier = p, a_vscode = v,
        a_packageManager = m\<rparr>) w6 = (Ok cfg, w')"
    by (erule andThen_OkE)
  show ?thesis
  proof (rule that [of t g e p v m])
    show "cfg = applyDefaults argv initMode av
       \<lparr>a_template = t, a_git = g, a_eslint = e, a_prettier = p, a_vscode = v,
        a_packageManager = m\<rparr>"
      using r6 by (simp add: return_def)
    show "initMode \<noteq> NoneMode \<Longrightarrow> t = None"
      using t by (auto dest: askSelect_OkD)
    show "\<not> (git argv = None \<and> yes argv = None \<and> gitAvailable av) \<Longrightarrow> g = None"
      using g by (rule askConfirm_OkD)
    show "\<not> (eslint argv = None \<and> yes argv = None) \<Longrightarrow> e = None"
      using e by (rule askConfirm_OkD)
    show "\<not> (prettier argv = None \<and> yes argv = None) \<Longrightarrow> p = None"
      using p by (rule askConfirm_OkD)
    show "\<not> (vscode argv = None \<and> yes argv = None) \<Longrightarrow> v = None"
      using v by (rule askConfirm_OkD)
    show "\<not> (packageManager argv = None \<and> packageManagerCount av > 1 \<and> yes argv = None) \<Longrightarrow> m = None"
      using m by (rule askSelect_OkD)
    show "\<And>x. t = Some x \<Longrightarrow> x \<in> {Game, Model, Plugin, Package}"
      using t by (auto dest: askSelect_member)
    show "\<And>x. m = Some x \<Longrightarrow> packageManagerExistance av x"
    proof -
      fix x assume "m = Some x"
      with m have "x \<in> set (packageManagerChoices av)" by (auto dest: askSelect_member)
      then show "packageManagerExistance av x"
        unfolding packageManagerChoices_def by (simp only: set_filter mem_Collect_eq)
    qed
  qed
qed

lemma emits_resolveOptions:
  assumes "initMode = NoneMode \<Longrightarrow> Asked ''template'' \<in> S"
    and "git argv = None \<and> yes argv = None \<and> gitAvailable av \<Longrightarrow> Asked ''git'' \<in> S"
    and "eslint argv = None \<and> yes argv = None \<Longrightarrow> Asked ''eslint'' \<in> S"
    and "prettier argv = None \<and> yes argv = None \<Longrightarrow> Asked ''prettier'' \<in> S"
    and "vscode argv = None \<and> yes argv = None \<Longrightarrow> Asked ''vscode'' \<in> S"
    and "packageManager argv = None \<and> packageManagerCount av > 1 \<and> yes argv = None
           \<Longrightarrow> Asked ''packageManager'' \<in> S"
  shows "emits S (resolveOptions h argv initMode av)"
  unfolding resolveOptions_def
  by (intro emits_andThen emits_askSelect emits_askConfirm emits_return assms)

lemma emits_resolveDir:
  assumes "dir argv = None \<Longrightarrow> Asked ''dir'' \<in> S" and "\<And>d. EnsureDir (resolve h d) \<in> S"
  shows "emits S (resolveDir h argv)"
  unfolding resolveDir_def fs_ensureDir_def
  by (intro emits_andThen emits_askText assms)
    (auto split: option.splits intro!: emits_andThen emits_runIf emits_mutate assms)

lemma emits_collisionGuard: "emits S (collisionGuard h cfg cwd)"
  unfolding collisionGuard_def by (intro emits_andThen) auto


lemma emits_stepPackageJson:
  assumes "\<And>e. isProvisioning e \<Longrightarrow> e \<in> S"
  shows "emits S (stepPackageJson h cfg cwd)"
  unfolding stepPackageJson_def fs_outputFile_def
  by (intro emits_andThen emits_cmd)
    (auto simp: spawnOf_def split: sum.splits intro!: emits_mutate assms)

lemma emits_provision:
  assumes "\<And>e. isProvisioning e \<Longrightarrow> e \<in> S"
  shows "emits S (provision h argv cfg cwd)"
  unfolding provision_def stepInstall_def stepEslint_def stepPrettier_def stepVscode_def
    stepCopy_def stepBuild_def fs_outputFile_def fs_copy_def
  by (intro emits_andThen emits_runIf emits_benchmark emits_stepPackageJson emits_stepGit
      emits_cmd emits_mutate assms) (simp_all add: spawnOf_def)


lemma emits_init:
  assumes "\<And>e. isProvisioning e \<Longrightarrow> e \<in> S"
    and "\<And>d. EnsureDir (resolve h d) \<in> S"
    and "dir argv = None \<Longrightarrow> Asked ''dir'' \<in> S"
    and "initMode = NoneMode \<Longrightarrow> Asked ''template'' \<in> S"
    and "git argv = None \<and> yes argv = None \<and> gitAvailable (probe h) \<Longrightarrow> Asked ''git'' \<in> S"
    and "eslint argv = None \<and> yes argv = None \<Longrightarrow> Asked ''eslint'' \<in> S"
    and "prettier argv = None \<and> yes argv = None \<Longrightarrow> Asked ''prettier'' \<in> S"
    and "vscode argv = None \<and> yes argv = None \<Longrightarrow> Asked ''vscode'' \<in> S"
    and "packageManager argv = None \<and> packageManagerCount (probe h) > 1 \<and> yes argv = None
           \<Longrightarrow> Asked ''packageManager'' \<in> S"
  shows "emits S (init h argv initMode)"
proof -
  have a: "emits S (resolveDir h argv)"
    by (rule emits_resolveDir) (fact assms)+
  have b: "emits S (resolveOptions h argv initMode (probe h))"
    by (rule emits_resolveOptions) (fact assms)+
  have c: "emits S (provision h argv cfg cwd)" for cfg cwd
    by (rule emits_provision) (fact assms)
  show ?thesis
    unfolding init_def
    by (intro emits_andThen a b c emits_collisionGuard)
qed


lemma init_never_asks:
  assumes "q \<noteq> ''dir'' \<or> dir argv \<noteq> None"
    and "q \<noteq> ''template'' \<or> initMode \<noteq> NoneMode"
    and "q \<noteq> ''git'' \<or> \<not> (git argv = None \<and> yes argv = None \<and> gitAvailable (probe h))"
    and "q \<noteq> ''eslint'' \<or> \<not> (eslint argv = None \<and> yes argv = None)"
    and "q \<noteq> ''prettier'' \<or> \<not> (prettier argv = None \<and> yes argv = None)"
    and "q \<noteq> ''vscode'' \<or> \<not> (vscode argv = None \<and> yes argv = None)"
    and "q \<noteq> ''packageManager'' \<or>
         \<not> (packageManager argv = None \<and> packageManagerCount (probe h) > 1 \<and> yes argv = None)"
  shows "\<exists>evs. trace (snd (init h argv initMode w)) = trace w @ evs \<and> Asked q \<notin> set evs"
proof -
  have "emits (- {Asked q}) (init h argv initMode)"
  proof (rule emits_init)
    show "isProvisioning e \<Longrightarrow> e \<in> - {Asked q}" for e by (cases e) auto
    show "EnsureDir (resolve h d) \<in> - {Asked q}" for d by simp
    show "dir argv = None \<Longrightarrow> Asked ''dir'' \<in> - {Asked q}"
      using assms(1) by auto
    show "initMode = NoneMode \<Longrightarrow> Asked ''template'' \<in> - {Asked q}"
      using assms(2) by auto
    show "git argv = None \<and> yes argv = None \<and> gitAvailable (probe h)
            \<Longrightarrow> Asked ''git'' \<in> - {Asked q}"
      using assms(3) by auto
    show "eslint argv = None \<and> yes argv = None \<Longrightarrow> Asked ''eslint'' \<in> - {Asked q}"
      using assms(4) by auto
    show "prettier argv = None \<and> yes argv = None \<Longrightarrow> Asked ''prettier'' \<in> - {Asked q}"
      using assms(5) by auto
    show "vscode argv = None \<and> yes argv = None \<Longrightarrow> Asked ''vscode'' \<in> - {Asked q}"
      using assms(6) by auto
    show "packageManager argv = None \<and> packageManagerCount (probe h) > 1 \<and> yes argv = None
            \<Longrightarrow> Asked ''packageManager'' \<in> - {Asked q}"
      using assms(7) by auto
  qed
  then obtain evs where "trace (snd (init h argv initMode w)) = trace w @ evs"
      and "set evs \<subseteq> - {Asked q}"
    by (rule emitsD)
  then show ?thesis by auto
qed


text \<open>
  C6. With "use defaults" set, no explicit version-control option and the version-control
  tool unavailable in the probe's result, every resolved configuration has version
  control off, and no run of \<open>init\<close> shows the version-control prompt. When the
  template is pinned the resolution returns without any interaction.
\<close>

theorem unavailable_git_forced_off:
  assumes "yes argv = Some True" and "git argv = None" and "\<not> gitAvailable (probe h)"
  shows "(\<forall>cfg w'. resolveOptions h argv initMode (probe h) w = (Ok cfg, w') \<longrightarrow> r_git cfg = False)
       \<and> (\<exists>evs. trace (snd (init h argv initMode w)) = trace w @ evs \<and> Asked ''git'' \<notin> set evs)
       \<and> (initMode \<noteq> NoneMode \<longrightarrow>
            (\<exists>cfg. resolveOptions h argv initMode (probe h) w = (Ok cfg, w) \<and> r_git cfg = False))"
proof (intro conjI allI impI)
  fix cfg w'
  assume "resolveOptions h argv initMode (probe h) w = (Ok cfg, w')"
  then show "r_git cfg = False"
    by (rule resolveOptions_OkE)
      (use assms in \<open>simp add: applyDefaults_def orElse_def andAlso_def\<close>)
next
  show "\<exists>evs. trace (snd (init h argv initMode w)) = trace w @ evs \<and> Asked ''git'' \<notin> set evs"
    by (rule init_never_asks) (use assms in auto)
next
  assume "initMode \<noteq> NoneMode"
  with assms show "\<exists>cfg. resolveOptions h argv initMode (probe h) w = (Ok cfg, w) \<and> r_git cfg = False"
    by (simp add: resolveOptions_def askSelect_def askConfirm_def return_def
        applyDefaults_def orElse_def andAlso_def)
qed

section \<open>Concrete runs\<close>

lemma follow_numeral:
  "follow (numeral k) d p =
     (case map_of d p of
        None \<Rightarrow> None
      | Some (LinkNode target) \<Rightarrow> follow (pred_numeral k) d target
      | Some x \<Rightarrow> Some x)"
  by (simp add: numeral_eq_Suc)

lemma linkTarget_numeral:
  "linkTarget (numeral k) d p =
     (case map_of d p of
        Some (LinkNode target) \<Rightarrow> linkTarget (pred_numeral k) d target
      | x \<Rightarrow> p)"
  by (simp add: numeral_eq_Suc)

lemmas host_defs = scriptedHost_def diskExists_def diskStat_def diskReaddir_def diskReadJson_def
  diskOutputFile_def diskSpawn_def follow_numeral linkTarget_numeral allInstalled_def pnpmOnly_def npmOnly_def templatesOnly_def
  occupied_def linked_def piped_def noOptions_def start_def

lemmas probe_defs = probe_def tools_def available_def npmAvailable_def pnpmAvailable_def
  yarnAvailable_def gitAvailable_def packageManagerCount_def packageManagerChoices_def

lemmas resolve_defs = resolveOptions_def resolveDir_def askText_def askConfirm_def askSelect_def
  applyDefaults_def orElse_def andAlso_def andThen_def return_def throw_def processExit_def
  emit_def runIf_def fs_pathExists_def fs_stat_def fs_ensureDir_def mutate_def

lemmas provision_defs = provision_def benchmark_def stepPackageJson_def stepGit_def stepInstall_def
  stepEslint_def stepPrettier_def stepVscode_def stepCopy_def stepBuild_def cmd_def
  fs_readJson_def fs_outputFile_def fs_copy_def mutate_def editPackageJson_def buildWanted_def
  paths_def path_join_def andThen_def return_def throw_def emit_def runIf_def Let_def
  devDependencies_def templateDir_def TEMPLATES_DIR_def

text \<open>
  The lookups settle in the order yarn, npm, git, pnpm on a host where the lookup of git
  is rejected.
\<close>

theorem probe_settles_witness:
  "distinct [2, 0, 3, 1 :: nat]
   \<and> set [2, 0, 3, 1] = {0..<length tools}
   \<and> lookpath (scriptedHost npmOnly (\<lambda>q. Answer True) (\<lambda>c. Some 0)) ''git''
       = Rejected (JsError ''EACCES'')
   \<and> probeAfter (scriptedHost npmOnly (\<lambda>q. Answer True) (\<lambda>c. Some 0)) [2, 0, 3, 1]
       = FulfilledWith [True, False, False, True]
   \<and> probeAfter (scriptedHost npmOnly (\<lambda>q. Answer True) (\<lambda>c. Some 0)) (take 3 [2, 0, 3, 1])
       = Pending"
proof -
  let ?h = "scriptedHost npmOnly (\<lambda>q. Answer True) (\<lambda>c. Some 0)"
  have a: "distinct [2, 0, 3, 1 :: nat]" by simp
  have b: "set [2, 0, 3, 1] = {0..<length tools}" by (auto simp: tools_def)
  have c: "lookpath ?h ''git'' = Rejected (JsError ''EACCES'')" by (simp add: host_defs)
  have p: "probe ?h = [True, False, False, True]" by (simp add: probe_defs host_defs)
  note settled = probe_settles [OF a b, of ?h]
  from settled p have whole: "probeAfter ?h [2, 0, 3, 1] = FulfilledWith [True, False, False, True]"
    by simp
  from settled have "\<forall>k<length [2, 0, 3, 1 :: nat]. probeAfter ?h (take k [2, 0, 3, 1]) = Pending"
    by (elim conjE)
  then have part: "probeAfter ?h (take 3 [2, 0, 3, 1]) = Pending"
    by (elim allE [of _ 3] impE) simp_all
  from a b c whole part show ?thesis by (intro conjI)
qed

text \<open>
  A host on which only pnpm is found, run with \<open>--yes\<close> and the template pinned.
\<close>

theorem unavailable_git_forced_off_witness:
  "yes (noOptions\<lparr>yes := Some True\<rparr>) = Some True
   \<and> git (noOptions\<lparr>yes := Some True\<rparr>) = None
   \<and> \<not> gitAvailable (probe (scriptedHost pnpmOnly (\<lambda>q. Answer True) (\<lambda>c. Some 0)))
   \<and> (\<exists>cfg. resolveOptions (scriptedHost pnpmOnly (\<lambda>q. Answer True) (\<lambda>c. Some 0))
               (noOptions\<lparr>yes := Some True\<rparr>) Game
               (probe (scriptedHost pnpmOnly (\<lambda>q. Answer True) (\<lambda>c. Some 0)))
               (start templatesOnly) = (Ok cfg, start templatesOnly)
             \<and> r_git cfg = False)"
proof -
  have a: "yes (noOptions\<lparr>yes := Some True\<rparr>) = Some True" by simp
  have b: "git (noOptions\<lparr>yes := Some True\<rparr>) = None" by (simp add: noOptions_def)
  have c: "\<not> gitAvailable (probe (scriptedHost pnpmOnly (\<lambda>q. Answer True) (\<lambda>c. Some 0)))"
    by (simp add: probe_defs host_defs)
  show ?thesis
    using a b c unavailable_git_forced_off [OF a b c, of Game "start templatesOnly"] by simp
qed

section \<open>Package-manager selection\<close>

text \<open>
  With at most one package manager available the package-manager prompt is never
  shown, whatever the "use defaults" flag.
\<close>

lemma sole_candidate_prompt_skipped:
  assumes "packageManagerCount (probe h) \<le> 1"
  shows "\<exists>evs. trace (snd (init h argv initMode w)) = trace w @ evs
              \<and> Asked ''packageManager'' \<notin> set evs"
  by (rule init_never_asks) (use assms in auto)

section \<open>Precedence of explicit options\<close>

lemma resolveDir_explicit:
  assumes "resolveDir h argv w = (Ok cwd, w')" and "dir argv = Some d"
  shows "cwd = resolve h d"
  using assms
  by (auto simp: resolveDir_def askText_def andThen_def return_def throw_def fs_pathExists_def
      fs_stat_def split: if_splits sum.splits prod.splits result.splits)

text \<open>
  C5. Whenever the resolution returns a configuration, every field with an explicit
  option (version control, linter, formatter, editor settings, package manager, a pinned
  template, the directory) has exactly that value, whatever the "use defaults" flag and
  the tool availability say; and no run of \<open>init\<close> shows the prompt of such a field, so
  no answer can change it.
\<close>

theorem explicit_options_win:
  assumes "resolveOptions h argv initMode (probe h) w = (Ok cfg, w')"
  shows "(\<forall>v. git argv = Some v \<longrightarrow> r_git cfg = v
            \<and> (\<exists>evs. trace (snd (init h argv initMode w0)) = trace w0 @ evs \<and> Asked ''git'' \<notin> set evs))
       \<and> (\<forall>v. eslint argv = Some v \<longrightarrow> r_eslint cfg = v
            \<and> (\<exists>evs. trace (snd (init h argv initMode w0)) = trace w0 @ evs \<and> Asked ''eslint'' \<notin> set evs))
       \<and> (\<forall>v. prettier argv = Some v \<longrightarrow> r_prettier cfg = v
            \<and> (\<exists>evs. trace (snd (init h argv initMode w0)) = trace w0 @ evs \<and> Asked ''prettier'' \<notin> set evs))
       \<and> (\<forall>v. vscode argv = Some v \<longrightarrow> r_vscode cfg = v
            \<and> (\<exists>evs. trace (snd (init h argv initMode w0)) = trace w0 @ evs \<and> Asked ''vscode'' \<notin> set evs))
       \<and> (\<forall>v. packageManager argv = Some v \<longrightarrow> r_packageManager cfg = v
            \<and> (\<exists>evs. trace (snd (init h argv initMode w0)) = trace w0 @ evs
                  \<and> Asked ''packageManager'' \<notin> set evs))
       \<and> (initMode \<noteq> NoneMode \<longrightarrow> r_template cfg = initMode
            \<and> (\<exists>evs. trace (snd (init h argv initMode w0)) = trace w0 @ evs \<and> Asked ''template'' \<notin> set evs))
       \<and> (\<forall>d. dir argv = Some d \<longrightarrow>
            (\<forall>cwd w1. resolveDir h argv w0 = (Ok cwd, w1) \<longrightarrow> cwd = resolve h d)
            \<and> (\<exists>evs. trace (snd (init h argv initMode w0)) = trace w0 @ evs \<and> Asked ''dir'' \<notin> set evs))"
proof -
  from assms obtain t g e p v m where
    cfg: "cfg = applyDefaults argv initMode (probe h)
       \<lparr>a_template = t, a_git = g, a_eslint = e, a_prettier = p, a_vscode = v,
        a_packageManager = m\<rparr>"
    and t: "initMode \<noteq> NoneMode \<Longrightarrow> t = None"
    and g: "\<not> (git argv = None \<and> yes argv = None \<and> gitAvailable (probe h)) \<Longrightarrow> g = None"
    and e: "\<not> (eslint argv = None \<and> yes argv = None) \<Longrightarrow> e = None"
    and p: "\<not> (prettier argv = None \<and> yes argv = None) \<Longrightarrow> p = None"
    and v: "\<not> (vscode argv = None \<and> yes argv = None) \<Longrightarrow> v = None"
    and m: "\<not> (packageManager argv = None \<and> packageManagerCount (probe h) > 1 \<and> yes argv = None)
              \<Longrightarrow> m = None"
    by (rule resolveOptions_OkE) blast
  have 1: "git argv = Some x \<Longrightarrow> r_git cfg = x" for x
    using g by (simp add: cfg applyDefaults_def orElse_def)
  have 2: "eslint argv = Some x \<Longrightarrow> r_eslint cfg = x" for x
    using e by (simp add: cfg applyDefaults_def orElse_def)
  have 3: "prettier argv = Some x \<Longrightarrow> r_prettier cfg = x" for x
    using p by (simp add: cfg applyDefaults_def orElse_def)
  have 4: "vscode argv = Some x \<Longrightarrow> r_vscode cfg = x" for x
    using v by (simp add: cfg applyDefaults_def orElse_def)
  have 5: "packageManager argv = Some x \<Longrightarrow> r_packageManager cfg = x" for x
    using m by (simp add: cfg applyDefaults_def orElse_def)
  have 6: "initMode \<noteq> NoneMode \<Longrightarrow> r_template cfg = initMode"
    using t by (simp add: cfg applyDefaults_def orElse_def)
  have n1: "git argv = Some x \<Longrightarrow>
      \<exists>evs. trace (snd (init h argv initMode w0)) = trace w0 @ evs \<and> Asked ''git'' \<notin> set evs" for x
    by (rule init_never_asks) simp_all
  have n2: "eslint argv = Some x \<Longrightarrow>
      \<exists>evs. trace (snd (init h argv initMode w0)) = trace w0 @ evs \<and> Asked ''eslint'' \<notin> set evs" for x
    by (rule init_never_asks) simp_all
  have n3: "prettier argv = Some x \<Longrightarrow>
      \<exists>evs. trace (snd (init h argv initMode w0)) = trace w0 @ evs \<and> Asked ''prettier'' \<notin> set evs" for x
    by (rule init_never_asks) simp_all
  have n4: "vscode argv = Some x \<Longrightarrow>
      \<exists>evs. trace (snd (init h argv initMode w0)) = trace w0 @ evs \<and> Asked ''vscode'' \<notin> set evs" for x
    by (rule init_never_asks) simp_all
  have n5: "packageManager argv = Some x \<Longrightarrow>
      \<exists>evs. trace (snd (init h argv initMode w0)) = trace w0 @ evs
            \<and> Asked ''packageManager'' \<notin> set evs" for x
    by (rule init_never_asks) simp_all
  have n6: "initMode \<noteq> NoneMode \<Longrightarrow>
      \<exists>evs. trace (snd (init h argv initMode w0)) = trace w0 @ evs \<and> Asked ''template'' \<notin> set evs"
    by (rule init_never_asks) simp_all
  have n7: "dir argv = Some x \<Longrightarrow>
      \<exists>evs. trace (snd (init h argv initMode w0)) = trace w0 @ evs \<and> Asked ''dir'' \<notin> set evs" for x
    by (rule init_never_asks) simp_all
  have 7: "dir argv = Some x \<Longrightarrow> resolveDir h argv w0 = (Ok cwd, w1) \<Longrightarrow> cwd = resolve h x"
    for x cwd w1
    by (rule resolveDir_explicit)
  show ?thesis
    by (intro conjI allI impI 1 2 3 4 5 6 n1 n2 n3 n4 n5 n6 n7; (rule 7; assumption)?)
qed


text \<open>
  A run with every feature switched off explicitly, yarn chosen, \<open>--yes\<close> set and all
  tools installed.
\<close>

theorem explicit_options_win_witness:
  "resolveOptions (scriptedHost allInstalled (\<lambda>q. Answer True) (\<lambda>c. Some 0))
     \<lparr>compilerVersion = None, dir = Some ''proj'', yes = Some True, git = Some False,
      eslint = Some False, prettier = Some False, vscode = Some False,
      packageManager = Some Yarn, skipBuild = None\<rparr> Model
     (probe (scriptedHost allInstalled (\<lambda>q. Answer True) (\<lambda>c. Some 0))) (start templatesOnly)
   = (Ok \<lparr>r_template = Model, r_git = False, r_eslint = False, r_prettier = False,
          r_vscode = False, r_packageManager = Yarn\<rparr>, start templatesOnly)
   \<and> (\<exists>evs. trace (snd (init (scriptedHost allInstalled (\<lambda>q. Answer True) (\<lambda>c. Some 0))
          \<lparr>compilerVersion = None, dir = Some ''proj'', yes = Some True, git = Some False,
           eslint = Some False, prettier = Some False, vscode = Some False,
           packageManager = Some Yarn, skipBuild = None\<rparr> Model (start templatesOnly)))
        = trace (start templatesOnly) @ evs \<and> Asked ''git'' \<notin> set evs)"
proof -
  let ?h = "scriptedHost allInstalled (\<lambda>q. Answer True) (\<lambda>c. Some 0)"
  let ?argv = "\<lparr>compilerVersion = None, dir = Some ''proj'', yes = Some True, git = Some False,
      eslint = Some False, prettier = Some False, vscode = Some False,
      packageManager = Some Yarn, skipBuild = None\<rparr>"
  have a: "resolveOptions ?h ?argv Model (probe ?h) (start templatesOnly)
     = (Ok \<lparr>r_template = Model, r_git = False, r_eslint = False, r_prettier = False,
          r_vscode = False, r_packageManager = Yarn\<rparr>, start templatesOnly)"
    by (simp add: probe_defs host_defs resolve_defs)
  have b: "git ?argv = Some False" by simp
  note win = explicit_options_win [OF a, of "start templatesOnly"]
  show ?thesis
    by (rule conjI [OF a conjunct2 [OF mp [OF spec [OF conjunct1 [OF win]] b]]])
qed

section \<open>The collision check\<close>

lemma path_join_empty_iff: "path_join a b = [] \<longleftrightarrow> a = [] \<and> b = []"
  by (auto simp: path_join_def)

lemma pathValues_expand:
  "pathValues cfg cwd fileNames =
     [path_join cwd ''package.json'', path_join cwd ''package-lock.json'',
      path_join cwd ''tsconfig.json'', path_join cwd ''.gitignore'',
      path_join cwd ''.eslintrc'', path_join cwd ''.prettierrc'',
      path_join (path_join cwd ''.vscode'') ''settings.json'',
      path_join (path_join cwd ''.vscode'') ''extensions.json'']
     @ map (path_join cwd) fileNames"
  by (simp add: pathValues_def Object_values_def paths_def)

lemma pathValues_nonempty:
  assumes "cwd \<noteq> []" and "p \<in> set (pathValues cfg cwd fileNames)"
  shows "p \<noteq> []"
proof
  assume "p = []"
  with assms show False
    by (auto simp: pathValues_expand path_join_empty_iff dest: sym)
qed

lemma collides_True_iff:
  "collides h s p = Inr True \<longleftrightarrow>
     p \<noteq> [] \<and> pathExists h s p \<and>
     (\<exists>st. stat h s p = Inr st \<and>
        (isFile st \<or> isSymbolicLink st \<or>
         (\<exists>entries. readdir h s p = Inr entries \<and> entries \<noteq> [])))"
  by (auto simp: collides_def split: sum.splits)

lemma collides_empty_directory:
  assumes "stat h s p = Inr st" and "\<not> isFile st" and "\<not> isSymbolicLink st"
    and "readdir h s p = Inr []"
  shows "collides h s p = Inr False"
  using assms by (simp add: collides_def)


lemma existingPathsLoop_total:
  "\<forall>p\<in>set ps. \<exists>b. collides h s p = Inr b \<Longrightarrow>
     existingPathsLoop h s ps acc =
       Inr (acc @ map (relative h) (filter (\<lambda>p. collides h s p = Inr True) ps))"
proof (induction ps arbitrary: acc)
  case Nil
  then show ?case by simp
next
  case (Cons p ps)
  then obtain b where b: "collides h s p = Inr b" by auto
  from Cons.prems have "\<forall>q\<in>set ps. \<exists>b. collides h s q = Inr b" by simp
  from Cons.IH [OF this] b show ?case by (cases b) simp_all
qed

lemma collisionGuard_readOnly: "snd (collisionGuard h cfg cwd w) = w"
  by (simp add: collisionGuard_def andThen_def fs_readdir_def existingPaths_def throw_def
      return_def split: sum.splits)

lemma collisionGuard_no_Exit: "fst (collisionGuard h cfg cwd w) \<noteq> Exit n"
  by (simp add: collisionGuard_def andThen_def fs_readdir_def existingPaths_def throw_def
      return_def split: sum.splits)

lemma collisionGuard_Throw:
  assumes "readdir h (fsys w) (templateDir h (r_template cfg)) = Inr fileNames"
    and "\<forall>p\<in>set (pathValues cfg cwd fileNames). \<exists>b. collides h (fsys w) p = Inr b"
    and "\<exists>p\<in>set (pathValues cfg cwd fileNames). collides h (fsys w) p = Inr True"
  shows "collisionGuard h cfg cwd w =
     (Throw (InitError (CouldOverwrite
        (map (relative h)
           (filter (\<lambda>p. collides h (fsys w) p = Inr True) (pathValues cfg cwd fileNames))))), w)"
proof -
  from assms(3) have "filter (\<lambda>p. collides h (fsys w) p = Inr True) (pathValues cfg cwd fileNames) \<noteq> []"
    by (auto simp: filter_empty_conv)
  with assms(1) existingPathsLoop_total [OF assms(2), of "[]"] show ?thesis
    by (simp add: collisionGuard_def andThen_def fs_readdir_def existingPaths_def throw_def)
qed

lemma collisionGuard_Ok:
  assumes "readdir h (fsys w) (templateDir h (r_template cfg)) = Inr fileNames"
    and "\<forall>p\<in>set (pathValues cfg cwd fileNames). collides h (fsys w) p = Inr False"
  shows "collisionGuard h cfg cwd w = (Ok (), w)"
proof -
  from assms(2) have ok: "\<forall>p\<in>set (pathValues cfg cwd fileNames). \<exists>b. collides h (fsys w) p = Inr b"
    by auto
  from assms(2) have "filter (\<lambda>p. collides h (fsys w) p = Inr True) (pathValues cfg cwd fileNames) = []"
    by (auto simp: filter_empty_conv)
  with assms(1) existingPathsLoop_total [OF ok, of "[]"] show ?thesis
    by (simp add: collisionGuard_def andThen_def fs_readdir_def existingPaths_def return_def)
qed

lemma init_after_resolution:
  assumes "resolveDir h argv w0 = (Ok cwd, w1)"
    and "resolveOptions h argv initMode (probe h) w1 = (Ok cfg, w)"
  shows "init h argv initMode w0 =
           andThen (collisionGuard h cfg cwd) (\<lambda>_. provision h argv cfg cwd) w"
  using assms by (simp add: init_def andThen_def)




lemmas guard_defs = collides_def pathValues_expand path_join_def templateDir_def TEMPLATES_DIR_def
  modeValue.simps

text \<open>
  C2. The code diverges from the claim at a symbolic link. The target holds
  \<open>.gitignore\<close>, a path of the inventory, as a symbolic link to an existing empty
  directory. The path exists, \<open>stat\<close> follows the link and reports a directory that is
  neither a file nor a symbolic link, and the listing is empty: the check does not count
  the link as a collision and the guard passes. The run goes on to provision: it
  creates \<open>package.json\<close>, runs \<open>git init\<close>, and fails only when it writes the
  ignore file through the link.
\<close>

theorem linked_path_is_not_reported:
  "map_of linked ''/work/proj/.gitignore'' = Some (LinkNode ''/work/empty'')
   \<and> ''/work/proj/.gitignore'' \<in> set (pathValues
        \<lparr>r_template = Game, r_git = True, r_eslint = True, r_prettier = True,
         r_vscode = True, r_packageManager = NPM\<rparr> ''/work/proj'' [''src'', ''default.project.json''])
   \<and> pathExists (scriptedHost allInstalled (\<lambda>q. Answer True) (\<lambda>c. Some 0)) linked
        ''/work/proj/.gitignore''
   \<and> stat (scriptedHost allInstalled (\<lambda>q. Answer True) (\<lambda>c. Some 0)) linked
        ''/work/proj/.gitignore''
       = Inr \<lparr>isFile = False, isSymbolicLink = False, isDirectory = True\<rparr>
   \<and> collides (scriptedHost allInstalled (\<lambda>q. Answer True) (\<lambda>c. Some 0)) linked
        ''/work/proj/.gitignore'' = Inr False
   \<and> collisionGuard (scriptedHost allInstalled (\<lambda>q. Answer True) (\<lambda>c. Some 0))
        \<lparr>r_template = Game, r_git = True, r_eslint = True, r_prettier = True,
         r_vscode = True, r_packageManager = NPM\<rparr> ''/work/proj'' (start linked)
       = (Ok (), start linked)
   \<and> fst (init (scriptedHost allInstalled (\<lambda>q. Answer True) (\<lambda>c. Some 0))
              (noOptions\<lparr>yes := Some True\<rparr>) Game (start linked)) = Throw (JsError ''EISDIR'')
   \<and> stepsStarted (trace (snd (init (scriptedHost allInstalled (\<lambda>q. Answer True) (\<lambda>c. Some 0))
              (noOptions\<lparr>yes := Some True\<rparr>) Game (start linked))))
       = [''Initializing package.json..'', ''Initializing Git..'']
   \<and> map_of (fsys (snd (init (scriptedHost allInstalled (\<lambda>q. Answer True) (\<lambda>c. Some 0))
              (noOptions\<lparr>yes := Some True\<rparr>) Game (start linked)))) ''/work/proj/package.json''
       = Some FileNode"
proof -
  let ?h = "scriptedHost allInstalled (\<lambda>q. Answer True) (\<lambda>c. Some 0)"
  let ?cfg = "\<lparr>r_template = Game, r_git = True, r_eslint = True, r_prettier = True,
         r_vscode = True, r_packageManager = NPM\<rparr>"
  let ?argv = "noOptions\<lparr>yes := Some True\<rparr>"
  have 1: "map_of linked ''/work/proj/.gitignore'' = Some (LinkNode ''/work/empty'')"
    by (simp add: linked_def)
  have 2: "''/work/proj/.gitignore'' \<in> set (pathValues ?cfg ''/work/proj'' [''src'', ''default.project.json''])"
    by (simp add: guard_defs)
  have 3: "pathExists ?h linked ''/work/proj/.gitignore''"
    by (simp add: host_defs)
  have 4: "stat ?h linked ''/work/proj/.gitignore''
       = Inr \<lparr>isFile = False, isSymbolicLink = False, isDirectory = True\<rparr>"
    by (simp add: host_defs)
  have 5: "collides ?h linked ''/work/proj/.gitignore'' = Inr False"
    by (simp add: guard_defs host_defs)
  have 6: "collisionGuard ?h ?cfg ''/work/proj'' (start linked) = (Ok (), start linked)"
    by (rule collisionGuard_Ok [where fileNames = "[''src'', ''default.project.json'']"])
      (simp_all add: guard_defs host_defs)
  have a: "resolveDir ?h ?argv (start linked) = (Ok ''/work/proj'', start linked)"
    by (simp add: host_defs resolve_defs)
  have b: "resolveOptions ?h ?argv Game (probe ?h) (start linked) = (Ok ?cfg, start linked)"
    by (simp add: probe_defs host_defs resolve_defs)
  have run: "init ?h ?argv Game (start linked) = provision ?h ?argv ?cfg ''/work/proj'' (start linked)"
    unfolding init_after_resolution [OF a b] by (simp add: andThen_def 6)
  have 7: "fst (init ?h ?argv Game (start linked)) = Throw (JsError ''EISDIR'')"
    unfolding run by (simp add: provision_defs host_defs)
  have 8: "stepsStarted (trace (snd (init ?h ?argv Game (start linked))))
       = [''Initializing package.json..'', ''Initializing Git..'']"
    unfolding run by (simp add: provision_defs host_defs)
  have 9: "map_of (fsys (snd (init ?h ?argv Game (start linked)))) ''/work/proj/package.json''
       = Some FileNode"
    unfolding run by (simp add: provision_defs host_defs)
  from 1 2 3 4 5 6 7 8 9 show ?thesis by (intro conjI)
qed



text \<open>
  C10. The inventory starts with the same eight generated-configuration paths for every
  configuration, whichever features are enabled; so when one of the eight collides
  (and the queries of the check succeed), the run aborts with a list that contains it,
  in the state in which the check began, also when the feature that would write that
  path is disabled.
\<close>

theorem inventory_ignores_features:
  assumes "resolveDir h argv w0 = (Ok cwd, w1)"
    and "resolveOptions h argv initMode (probe h) w1 = (Ok cfg, w)"
    and "readdir h (fsys w) (templateDir h (r_template cfg)) = Inr fileNames"
    and "\<forall>p\<in>set (pathValues cfg cwd fileNames). \<exists>b. collides h (fsys w) p = Inr b"
    and "filePath \<in> set (Object_values (paths cwd))"
    and "collides h (fsys w) filePath = Inr True"
  shows "(\<forall>cfg'. pathValues cfg' cwd fileNames =
            [path_join cwd ''package.json'', path_join cwd ''package-lock.json'',
             path_join cwd ''tsconfig.json'', path_join cwd ''.gitignore'',
             path_join cwd ''.eslintrc'', path_join cwd ''.prettierrc'',
             path_join (path_join cwd ''.vscode'') ''settings.json'',
             path_join (path_join cwd ''.vscode'') ''extensions.json'']
            @ map (path_join cwd) fileNames)
       \<and> (\<exists>found. init h argv initMode w0 = (Throw (InitError (CouldOverwrite found)), w)
             \<and> relative h filePath \<in> set found)"
proof (intro conjI allI)
  fix cfg'
  show "pathValues cfg' cwd fileNames =
            [path_join cwd ''package.json'', path_join cwd ''package-lock.json'',
             path_join cwd ''tsconfig.json'', path_join cwd ''.gitignore'',
             path_join cwd ''.eslintrc'', path_join cwd ''.prettierrc'',
             path_join (path_join cwd ''.vscode'') ''settings.json'',
             path_join (path_join cwd ''.vscode'') ''extensions.json'']
            @ map (path_join cwd) fileNames"
    by (rule pathValues_expand)
next
  from assms(5) have member: "filePath \<in> set (pathValues cfg cwd fileNames)"
    by (simp add: pathValues_def)
  with assms(6) have hit: "\<exists>p\<in>set (pathValues cfg cwd fileNames). collides h (fsys w) p = Inr True"
    by blast
  have "init h argv initMode w0 =
           (Throw (InitError (CouldOverwrite
              (map (relative h)
                 (filter (\<lambda>p. collides h (fsys w) p = Inr True)
                    (pathValues cfg cwd fileNames))))), w)"
    unfolding init_after_resolution [OF assms(1,2)]
    by (rule andThen_Throw) (rule collisionGuard_Throw [OF assms(3,4) hit])
  moreover from member assms(6)
  have "relative h filePath \<in> set (map (relative h)
                 (filter (\<lambda>p. collides h (fsys w) p = Inr True)
                    (pathValues cfg cwd fileNames)))"
    by simp
  ultimately show "\<exists>found. init h argv initMode w0 = (Throw (InitError (CouldOverwrite found)), w)
             \<and> relative h filePath \<in> set found"
    by blast
qed

text \<open>A run with the linter disabled into a target that holds \<open>.eslintrc\<close>.\<close>

theorem inventory_ignores_features_witness:
  "r_eslint \<lparr>r_template = Game, r_git = False, r_eslint = False, r_prettier = False,
         r_vscode = False, r_packageManager = NPM\<rparr> = False
   \<and> (\<exists>found. init (scriptedHost allInstalled (\<lambda>q. Answer True) (\<lambda>c. Some 0))
         (noOptions\<lparr>git := Some False, eslint := Some False, prettier := Some False,
            vscode := Some False, packageManager := Some NPM\<rparr>) Game (start occupied)
        = (Throw (InitError (CouldOverwrite found)), start occupied)
      \<and> relative (scriptedHost allInstalled (\<lambda>q. Answer True) (\<lambda>c. Some 0)) ''/work/proj/.eslintrc''
          \<in> set found)"
proof -
  let ?h = "scriptedHost allInstalled (\<lambda>q. Answer True) (\<lambda>c. Some 0)"
  let ?argv = "noOptions\<lparr>git := Some False, eslint := Some False, prettier := Some False,
            vscode := Some False, packageManager := Some NPM\<rparr>"
  let ?cfg = "\<lparr>r_template = Game, r_git = False, r_eslint = False, r_prettier = False,
         r_vscode = False, r_packageManager = NPM\<rparr>"
  have a: "resolveDir ?h ?argv (start occupied) = (Ok ''/work/proj'', start occupied)"
    by (simp add: host_defs resolve_defs)
  have b: "resolveOptions ?h ?argv Game (probe ?h) (start occupied) = (Ok ?cfg, start occupied)"
    by (simp add: probe_defs host_defs resolve_defs)
  have c: "readdir ?h (fsys (start occupied)) (templateDir ?h (r_template ?cfg))
      = Inr [''src'', ''default.project.json'']"
    by (simp add: guard_defs host_defs)
  have d: "\<forall>p\<in>set (pathValues ?cfg ''/work/proj'' [''src'', ''default.project.json'']).
             \<exists>b. collides ?h (fsys (start occupied)) p = Inr b"
    by (auto simp: guard_defs host_defs)
  have e: "''/work/proj/.eslintrc'' \<in> set (Object_values (paths ''/work/proj''))"
    by (simp add: Object_values_def paths_def path_join_def)
  have f: "collides ?h (fsys (start occupied)) ''/work/proj/.eslintrc'' = Inr True"
    by (simp add: guard_defs host_defs)
  from inventory_ignores_features [OF a b c d e f] show ?thesis by simp
qed

section \<open>The outline of a provisioning run\<close>

lemma followsI:
  assumes "\<And>w. \<exists>evs. trace (snd (m w)) = trace w @ evs \<and> prefix (map outline evs) expected \<and>
        ((\<exists>a. fst (m w) = Ok a) \<longrightarrow> map outline evs = expected)"
  shows "follows expected m"
  using assms by (simp add: follows_def)

lemma followsD:
  assumes "follows expected m"
  shows "\<exists>evs. trace (snd (m w)) = trace w @ evs \<and> prefix (map outline evs) expected \<and>
        ((\<exists>a. fst (m w) = Ok a) \<longrightarrow> map outline evs = expected)"
  using assms unfolding follows_def by blast

lemma follows_return [simp]: "follows [] (return x)"
  by (simp add: follows_def return_def)

lemma follows_throw [simp]: "follows xs (throw e)"
  by (simp add: follows_def throw_def)

lemma follows_emit: "follows [outline e] (emit e)"
  by (simp add: follows_def emit_def)

lemma follows_mutate: "follows [outline ev] (mutate ev f)"
  by (simp add: follows_def mutate_def split: prod.splits option.splits)

lemma follows_outputFile: "follows [OutputFile p (Text [])] (fs_outputFile h p c)"
  using follows_mutate [of "OutputFile p c" "outputFile h p c"] by (simp add: fs_outputFile_def)

lemma follows_copy: "follows [Copy src dst] (fs_copy h src dst)"
  using follows_mutate [of "Copy src dst" "copy h src dst"] by (simp add: fs_copy_def)

lemma follows_cmd: "follows [spawnOf c cwd] (cmd h c cwd)"
  by (simp add: follows_def cmd_def spawnOf_def Let_def split: prod.splits spawned.splits)

lemma follows_fs_readJson [simp]: "follows [] (fs_readJson h p)"
  by (simp add: follows_def fs_readJson_def split: sum.splits)

lemma follows_andThen:
  assumes m: "follows xs m" and f: "\<And>a. follows ys (f a)"
  shows "follows (xs @ ys) (andThen m f)"
proof (rule followsI)
  fix w
  obtain evs1 where e1: "trace (snd (m w)) = trace w @ evs1" "prefix (map outline evs1) xs"
    "(\<exists>a. fst (m w) = Ok a) \<longrightarrow> map outline evs1 = xs"
    using followsD [OF m, of w] by blast
  show "\<exists>evs. trace (snd (andThen m f w)) = trace w @ evs \<and> prefix (map outline evs) (xs @ ys) \<and>
        ((\<exists>a. fst (andThen m f w) = Ok a) \<longrightarrow> map outline evs = xs @ ys)"
  proof (cases rule: andThen_cases [of m w f])
    case (ok a w')
    obtain evs2 where e2: "trace (snd (f a w')) = trace w' @ evs2" "prefix (map outline evs2) ys"
      "(\<exists>b. fst (f a w') = Ok b) \<longrightarrow> map outline evs2 = ys"
      using followsD [OF f, of a w'] by blast
    from ok e1 have xs: "map outline evs1 = xs" by simp
    from ok e1 e2 have "trace (snd (andThen m f w)) = trace w @ (evs1 @ evs2)" by simp
    moreover from xs e2 have "prefix (map outline (evs1 @ evs2)) (xs @ ys)" by simp
    moreover from xs e2 ok have "(\<exists>b. fst (andThen m f w) = Ok b) \<longrightarrow> map outline (evs1 @ evs2) = xs @ ys"
      by auto
    ultimately show ?thesis by blast
  next
    case (throw e w')
    with e1 show ?thesis by (auto intro: prefix_prefix)
  next
    case (exit n w')
    with e1 show ?thesis by (auto intro: prefix_prefix)
  qed
qed

lemma follows_runIf: "follows xs m \<Longrightarrow> follows (if b then xs else []) (runIf b m)"
  by (simp add: runIf_def)

lemma follows_benchmark:
  assumes "follows xs cb"
  shows "follows (StepStart n # xs @ [StepDone n]) (benchmark n cb)"
proof -
  have "follows ([outline (StepStart n)] @ (xs @ [outline (StepDone n)])) (benchmark n cb)"
    unfolding benchmark_def by (intro follows_andThen follows_emit assms)
  then show ?thesis by simp
qed

lemma follows_stepPackageJson:
  "follows [spawnOf (pm_init (packageManagerCommands (r_packageManager cfg))) cwd,
            OutputFile (packageJson (paths cwd)) (Text [])]
     (stepPackageJson h cfg cwd)"
proof -
  have w: "follows [OutputFile (packageJson (paths cwd)) (Text [])]
     (case editPackageJson h (r_template cfg) (packageManagerCommands (r_packageManager cfg)) pkgJson of
         Inl e \<Rightarrow> throw e
       | Inr edited \<Rightarrow> fs_outputFile h (packageJson (paths cwd)) (Json edited ''  ''))" for pkgJson
    by (simp add: follows_outputFile split: sum.splits)
  have "follows ([spawnOf (pm_init (packageManagerCommands (r_packageManager cfg))) cwd]
                 @ ([] @ [OutputFile (packageJson (paths cwd)) (Text [])]))
     (stepPackageJson h cfg cwd)"
    unfolding stepPackageJson_def
    by (intro follows_andThen follows_cmd follows_fs_readJson w)
  then show ?thesis by simp
qed

lemma follows_stepGit:
  "follows [spawnOf ''git init'' cwd, OutputFile (gitignore (paths cwd)) (Text [])] (stepGit h cwd)"
proof (rule followsI)
  fix w
  let ?xs = "[spawnOf ''git init'' cwd, OutputFile (gitignore (paths cwd)) (Text [])]"
  let ?c = "Text (joinWith [CHR 0x0A] GIT_IGNORE @ [CHR 0x0A])"
  let ?goal = "\<exists>evs. trace (snd (stepGit h cwd w)) = trace w @ evs \<and> prefix (map outline evs) ?xs \<and>
        ((\<exists>a. fst (stepGit h cwd w) = Ok a) \<longrightarrow> map outline evs = ?xs)"
  obtain r w' where c: "cmd h ''git init'' cwd w = (r, w')" by (cases "cmd h ''git init'' cwd w")
  have tr: "trace w' = trace w @ [spawnOf ''git init'' cwd]"
    using c by (auto simp: cmd_def spawnOf_def Let_def split: prod.splits spawned.splits)
  have pre: "prefix [spawnOf ''git init'' cwd] ?xs" by simp
  show ?goal
  proof (cases r)
    case (Ok out)
    obtain r2 w2 where o: "fs_outputFile h (gitignore (paths cwd)) ?c w' = (r2, w2)"
      by (cases "fs_outputFile h (gitignore (paths cwd)) ?c w'")
    have tr2: "trace w2 = trace w' @ [OutputFile (gitignore (paths cwd)) ?c]"
      using o by (auto simp: fs_outputFile_def mutate_def split: prod.splits option.splits)
    from c Ok o have s: "stepGit h cwd w = (r2, w2)" by (simp add: stepGit_def)
    have "trace (snd (stepGit h cwd w)) = trace w @ [spawnOf ''git init'' cwd, OutputFile (gitignore (paths cwd)) ?c]"
      by (simp add: s tr tr2)
    moreover have "map outline [spawnOf ''git init'' cwd, OutputFile (gitignore (paths cwd)) ?c] = ?xs"
      by (simp add: spawnOf_def)
    ultimately show ?thesis by (metis prefix_order.order_refl)
  next
    case (Throw e)
    with c have "snd (stepGit h cwd w) = w'" and "\<forall>a. fst (stepGit h cwd w) \<noteq> Ok a"
      by (cases e; simp add: stepGit_def)+
    moreover have "map outline [spawnOf ''git init'' cwd] = [spawnOf ''git init'' cwd]"
      by (simp add: spawnOf_def)
    ultimately show ?thesis using tr pre by metis
  next
    case (Exit n)
    with c have "snd (stepGit h cwd w) = w'" and "\<forall>a. fst (stepGit h cwd w) \<noteq> Ok a"
      by (simp_all add: stepGit_def)
    moreover have "map outline [spawnOf ''git init'' cwd] = [spawnOf ''git init'' cwd]"
      by (simp add: spawnOf_def)
    ultimately show ?thesis using tr pre by metis
  qed
qed

lemma follows_provision:
  "follows (concat (map bracket (canonicalEffects h argv cfg cwd))) (provision h argv cfg cwd)"
proof -
  have 1: "follows (bracket (''Initializing package.json..'',
        [spawnOf (pm_init (packageManagerCommands (r_packageManager cfg))) cwd,
         OutputFile (packageJson (paths cwd)) (Text [])]))
      (benchmark ''Initializing package.json..'' (stepPackageJson h cfg cwd))"
    unfolding bracket_def fst_conv snd_conv by (intro follows_benchmark follows_stepPackageJson)
  have 2: "follows (bracket (''Initializing Git..'',
        [spawnOf ''git init'' cwd, OutputFile (gitignore (paths cwd)) (Text [])]))
      (benchmark ''Initializing Git..'' (stepGit h cwd))"
    unfolding bracket_def fst_conv snd_conv by (intro follows_benchmark follows_stepGit)
  have 3: "follows (bracket (''Installing dependencies..'',
        [spawnOf (pm_devInstall (packageManagerCommands (r_packageManager cfg)) @ '' '' @
                    joinWith '' '' (devDependencies argv cfg)) cwd]))
      (benchmark ''Installing dependencies..'' (stepInstall h argv cfg cwd))"
    unfolding bracket_def fst_conv snd_conv stepInstall_def by (intro follows_benchmark follows_cmd)
  have 4: "follows (bracket (''Configuring ESLint..'', [OutputFile (eslintrc (paths cwd)) (Text [])]))
      (benchmark ''Configuring ESLint..'' (stepEslint h cfg cwd))"
    unfolding bracket_def fst_conv snd_conv stepEslint_def
    by (intro follows_benchmark follows_outputFile)
  have 5: "follows (bracket (''Configuring prettier..'', [OutputFile (prettierrc (paths cwd)) (Text [])]))
      (benchmark ''Configuring prettier..'' (stepPrettier h cwd))"
    unfolding bracket_def fst_conv snd_conv stepPrettier_def
    by (intro follows_benchmark follows_outputFile)
  have "follows ([OutputFile (extensions (paths cwd)) (Text [])]
                 @ [OutputFile (settings (paths cwd)) (Text [])])
          (stepVscode h cfg cwd)"
    unfolding stepVscode_def by (intro follows_andThen follows_outputFile)
  then have 6: "follows (bracket (''Configuring vscode..'',
             [OutputFile (extensions (paths cwd)) (Text []),
              OutputFile (settings (paths cwd)) (Text [])]))
      (benchmark ''Configuring vscode..'' (stepVscode h cfg cwd))"
    unfolding bracket_def fst_conv snd_conv by (intro follows_benchmark) simp
  have 7: "follows (bracket (''Copying template files..'', [Copy (templateDir h (r_template cfg)) cwd]))
      (benchmark ''Copying template files..'' (stepCopy h cfg cwd))"
    unfolding bracket_def fst_conv snd_conv stepCopy_def
    by (intro follows_benchmark follows_copy)
  have 8: "follows (bracket (''Compiling..'',
             [spawnOf (pm_build (packageManagerCommands (r_packageManager cfg))) cwd]))
      (benchmark ''Compiling..'' (stepBuild h cfg cwd))"
    unfolding bracket_def fst_conv snd_conv stepBuild_def by (intro follows_benchmark follows_cmd)
  note steps = 1 follows_runIf [OF 2] 3 follows_runIf [OF 4] follows_runIf [OF 5]
    follows_runIf [OF 6] 7 follows_runIf [OF 8]
  have "follows
     (bracket (''Initializing package.json..'',
        [spawnOf (pm_init (packageManagerCommands (r_packageManager cfg))) cwd,
         OutputFile (packageJson (paths cwd)) (Text [])])
      @ (if r_git cfg then bracket (''Initializing Git..'',
             [spawnOf ''git init'' cwd, OutputFile (gitignore (paths cwd)) (Text [])]) else [])
      @ bracket (''Installing dependencies..'',
          [spawnOf (pm_devInstall (packageManagerCommands (r_packageManager cfg)) @ '' '' @
                    joinWith '' '' (devDependencies argv cfg)) cwd])
      @ (if r_eslint cfg then
          bracket (''Configuring ESLint..'', [OutputFile (eslintrc (paths cwd)) (Text [])]) else [])
      @ (if r_prettier cfg then
          bracket (''Configuring prettier..'', [OutputFile (prettierrc (paths cwd)) (Text [])]) else [])
      @ (if r_vscode cfg then
          bracket (''Configuring vscode..'',
             [OutputFile (extensions (paths cwd)) (Text []),
              OutputFile (settings (paths cwd)) (Text [])]) else [])
      @ bracket (''Copying template files..'', [Copy (templateDir h (r_template cfg)) cwd])
      @ (if buildWanted argv then
          bracket (''Compiling..'',
             [spawnOf (pm_build (packageManagerCommands (r_packageManager cfg))) cwd]) else []))
     (provision h argv cfg cwd)"
    unfolding provision_def by (intro follows_andThen steps)
  moreover have "concat (map bracket (canonicalEffects h argv cfg cwd)) =
     bracket (''Initializing package.json..'',
        [spawnOf (pm_init (packageManagerCommands (r_packageManager cfg))) cwd,
         OutputFile (packageJson (paths cwd)) (Text [])])
      @ (if r_git cfg then bracket (''Initializing Git..'',
             [spawnOf ''git init'' cwd, OutputFile (gitignore (paths cwd)) (Text [])]) else [])
      @ bracket (''Installing dependencies..'',
          [spawnOf (pm_devInstall (packageManagerCommands (r_packageManager cfg)) @ '' '' @
                    joinWith '' '' (devDependencies argv cfg)) cwd])
      @ (if r_eslint cfg then
          bracket (''Configuring ESLint..'', [OutputFile (eslintrc (paths cwd)) (Text [])]) else [])
      @ (if r_prettier cfg then
          bracket (''Configuring prettier..'', [OutputFile (prettierrc (paths cwd)) (Text [])]) else [])
      @ (if r_vscode cfg then
          bracket (''Configuring vscode..'',
             [OutputFile (extensions (paths cwd)) (Text []),
              OutputFile (settings (paths cwd)) (Text [])]) else [])
      @ bracket (''Copying template files..'', [Copy (templateDir h (r_template cfg)) cwd])
      @ (if buildWanted argv then
          bracket (''Compiling..'',
             [spawnOf (pm_build (packageManagerCommands (r_packageManager cfg))) cwd]) else [])"
    unfolding canonicalEffects_def by (simp add: buildWanted_def)
  ultimately show ?thesis by simp
qed

section \<open>The canonical order of the steps\<close>

lemma stepsStarted_append: "stepsStarted (xs @ ys) = stepsStarted xs @ stepsStarted ys"
  by (induction xs rule: stepsStarted.induct) simp_all

lemma stepsFinished_append: "stepsFinished (xs @ ys) = stepsFinished xs @ stepsFinished ys"
  by (induction xs rule: stepsFinished.induct) simp_all

lemma stepsStarted_outline: "stepsStarted (map outline evs) = stepsStarted evs"
  by (induction evs rule: stepsStarted.induct) simp_all

lemma prefix_stepsStarted: "prefix xs ys \<Longrightarrow> prefix (stepsStarted xs) (stepsStarted ys)"
  by (auto simp: prefix_def stepsStarted_append)

lemma stepsStarted_quiet: "\<forall>e\<in>set evs. \<not> isReport e \<Longrightarrow> stepsStarted evs = []"
  by (induction evs rule: stepsStarted.induct) simp_all

lemma stepsFinished_quiet: "\<forall>e\<in>set evs. \<not> isReport e \<Longrightarrow> stepsFinished evs = []"
  by (induction evs rule: stepsFinished.induct) simp_all

lemma stepsStarted_bracket:
  "\<forall>e\<in>set (snd st). \<not> isReport e \<Longrightarrow> stepsStarted (bracket st) = [fst st]"
  by (simp add: bracket_def stepsStarted_append stepsStarted_quiet)

lemma canonicalEffects_quiet:
  "st \<in> set (canonicalEffects h argv cfg cwd) \<Longrightarrow> \<forall>e\<in>set (snd st). \<not> isReport e"
  by (auto simp: canonicalEffects_def spawnOf_def split: if_splits)

lemma stepsStarted_concat_bracket:
  "\<forall>st\<in>set sts. \<forall>e\<in>set (snd st). \<not> isReport e \<Longrightarrow>
     stepsStarted (concat (map bracket sts)) = map fst sts"
  by (induction sts) (simp_all add: stepsStarted_append stepsStarted_bracket)

lemma stepsStarted_canonical:
  "stepsStarted (concat (map bracket (canonicalEffects h argv cfg cwd)))
     = map fst (canonicalEffects h argv cfg cwd)"
  by (rule stepsStarted_concat_bracket) (blast dest: canonicalEffects_quiet)

lemma canonical_labels:
  "map fst (canonicalEffects h argv cfg cwd) =
     [''Initializing package.json..'']
     @ (if r_git cfg then [''Initializing Git..''] else [])
     @ [''Installing dependencies..'']
     @ (if r_eslint cfg then [''Configuring ESLint..''] else [])
     @ (if r_prettier cfg then [''Configuring prettier..''] else [])
     @ (if r_vscode cfg then [''Configuring vscode..''] else [])
     @ [''Copying template files..'']
     @ (if skipBuild argv = Some True then [] else [''Compiling..''])"
  by (simp add: canonicalEffects_def)

text \<open>
  C7. The canonical sequence lists, in order: the package descriptor; if enabled,
  version control (\<open>git init\<close>, then the ignore file); the installation of the
  development dependencies; if enabled, the linter configuration; if enabled, the
  formatter configuration; if enabled, the editor recommendations and settings; the copy
  of the template tree; and the build, last, left out exactly when the option
  \<open>skipBuild\<close> is \<open>true\<close>. For every
  configuration and every state, the events of \<open>provision\<close> (payloads aside) are a prefix
  of the bracketed effects of exactly the enabled steps in that order, and the steps
  started a prefix of their labels; a run that returns has performed all of them.
\<close>

theorem steps_run_in_canonical_order:
  "map fst (canonicalEffects h argv cfg cwd) =
     [''Initializing package.json..'']
     @ (if r_git cfg then [''Initializing Git..''] else [])
     @ [''Installing dependencies..'']
     @ (if r_eslint cfg then [''Configuring ESLint..''] else [])
     @ (if r_prettier cfg then [''Configuring prettier..''] else [])
     @ (if r_vscode cfg then [''Configuring vscode..''] else [])
     @ [''Copying template files..'']
     @ (if skipBuild argv = Some True then [] else [''Compiling..''])
   \<and> (\<exists>evs. trace (snd (provision h argv cfg cwd w)) = trace w @ evs
         \<and> prefix (map outline evs) (concat (map bracket (canonicalEffects h argv cfg cwd)))
         \<and> prefix (stepsStarted evs) (map fst (canonicalEffects h argv cfg cwd))
         \<and> (fst (provision h argv cfg cwd w) = Ok () \<longrightarrow>
               map outline evs = concat (map bracket (canonicalEffects h argv cfg cwd))
             \<and> stepsStarted evs = map fst (canonicalEffects h argv cfg cwd)))"
proof (rule conjI)
  show "map fst (canonicalEffects h argv cfg cwd) =
     [''Initializing package.json..'']
     @ (if r_git cfg then [''Initializing Git..''] else [])
     @ [''Installing dependencies..'']
     @ (if r_eslint cfg then [''Configuring ESLint..''] else [])
     @ (if r_prettier cfg then [''Configuring prettier..''] else [])
     @ (if r_vscode cfg then [''Configuring vscode..''] else [])
     @ [''Copying template files..'']
     @ (if skipBuild argv = Some True then [] else [''Compiling..''])"
    by (rule canonical_labels)
next
  let ?expected = "concat (map bracket (canonicalEffects h argv cfg cwd))"
  obtain evs where t: "trace (snd (provision h argv cfg cwd w)) = trace w @ evs"
    and p: "prefix (map outline evs) ?expected"
    and c: "(\<exists>a. fst (provision h argv cfg cwd w) = Ok a) \<longrightarrow> map outline evs = ?expected"
    using followsD [OF follows_provision, of h argv cfg cwd w] by blast
  from prefix_stepsStarted [OF p]
  have ps: "prefix (stepsStarted evs) (map fst (canonicalEffects h argv cfg cwd))"
    by (simp add: stepsStarted_outline stepsStarted_canonical)
  have fin: "fst (provision h argv cfg cwd w) = Ok () \<longrightarrow>
               map outline evs = ?expected
             \<and> stepsStarted evs = map fst (canonicalEffects h argv cfg cwd)"
  proof
    assume "fst (provision h argv cfg cwd w) = Ok ()"
    with c have eq: "map outline evs = ?expected" by blast
    then have "stepsStarted (map outline evs) = stepsStarted ?expected" by simp
    then have "stepsStarted evs = map fst (canonicalEffects h argv cfg cwd)"
      by (simp add: stepsStarted_outline stepsStarted_canonical)
    with eq show "map outline evs = ?expected
             \<and> stepsStarted evs = map fst (canonicalEffects h argv cfg cwd)" by simp
  qed
  from t p ps fin
  show "\<exists>evs. trace (snd (provision h argv cfg cwd w)) = trace w @ evs
         \<and> prefix (map outline evs) ?expected
         \<and> prefix (stepsStarted evs) (map fst (canonicalEffects h argv cfg cwd))
         \<and> (fst (provision h argv cfg cwd w) = Ok () \<longrightarrow>
               map outline evs = ?expected
             \<and> stepsStarted evs = map fst (canonicalEffects h argv cfg cwd))"
    by (intro exI [of _ evs] conjI)
qed


text \<open>A provisioning run with every feature enabled on a host where every command succeeds.\<close>

theorem steps_run_in_canonical_order_witness:
  "fst (provision (scriptedHost allInstalled (\<lambda>q. Answer True) (\<lambda>c. Some 0)) noOptions
          \<lparr>r_template = Game, r_git = True, r_eslint = True, r_prettier = True, r_vscode = True,
           r_packageManager = NPM\<rparr> ''/work/proj'' (start templatesOnly)) = Ok ()
   \<and> stepsStarted (trace (snd (provision (scriptedHost allInstalled (\<lambda>q. Answer True) (\<lambda>c. Some 0))
          noOptions
          \<lparr>r_template = Game, r_git = True, r_eslint = True, r_prettier = True, r_vscode = True,
           r_packageManager = NPM\<rparr> ''/work/proj'' (start templatesOnly))))
     = [''Initializing package.json..'', ''Initializing Git..'', ''Installing dependencies..'',
        ''Configuring ESLint..'', ''Configuring prettier..'', ''Configuring vscode..'',
        ''Copying template files..'', ''Compiling..'']"
proof -
  let ?h = "scriptedHost allInstalled (\<lambda>q. Answer True) (\<lambda>c. Some 0)"
  let ?cfg = "\<lparr>r_template = Game, r_git = True, r_eslint = True, r_prettier = True,
           r_vscode = True, r_packageManager = NPM\<rparr>"
  let ?run = "provision ?h noOptions ?cfg ''/work/proj'' (start templatesOnly)"
  have ok: "fst ?run = Ok ()"
    by (simp add: provision_defs host_defs)
  from steps_run_in_canonical_order [of ?h noOptions ?cfg "''/work/proj''" "start templatesOnly"]
  obtain evs where t: "trace (snd ?run) = trace (start templatesOnly) @ evs"
    and s: "fst ?run = Ok () \<longrightarrow>
              map outline evs = concat (map bracket (canonicalEffects ?h noOptions ?cfg ''/work/proj''))
            \<and> stepsStarted evs = map fst (canonicalEffects ?h noOptions ?cfg ''/work/proj'')"
    by (elim conjE exE)
  from s ok have "stepsStarted evs = map fst (canonicalEffects ?h noOptions ?cfg ''/work/proj'')"
    by (elim impE conjE)
  with t have "stepsStarted (trace (snd ?run))
     = map fst (canonicalEffects ?h noOptions ?cfg ''/work/proj'')"
    by (simp add: start_def)
  also have "\<dots> = [''Initializing package.json..'', ''Initializing Git..'', ''Installing dependencies..'',
        ''Configuring ESLint..'', ''Configuring prettier..'', ''Configuring vscode..'',
        ''Copying template files..'', ''Compiling..'']"
    by (simp add: canonicalEffects_def noOptions_def)
  finally show ?thesis using ok by (intro conjI)
qed

section \<open>The sequencer and the first failing step\<close>

lemma andThen_assoc: "andThen (andThen m f) g = andThen m (\<lambda>a. andThen (f a) g)"
proof (rule ext)
  fix w
  show "andThen (andThen m f) g w = andThen m (\<lambda>a. andThen (f a) g) w"
    by (cases rule: andThen_cases [of m w f]) (simp_all add: andThen_def)
qed

lemma andThen_return_unit: "andThen m (\<lambda>_. return ()) = (m :: (unit, 'fs) prog)"
proof (rule ext)
  fix w
  show "andThen m (\<lambda>_. return ()) w = m w"
    by (cases rule: andThen_cases [of m w "\<lambda>_. return ()"]) (simp_all add: return_def)
qed

lemma andThen_return: "andThen m return = m"
proof (rule ext)
  fix w
  show "andThen m return w = m w"
    by (cases rule: andThen_cases [of m w return]) (simp_all add: return_def)
qed

lemma benchmark_discard: "benchmark n (discard m) = benchmark n m"
  by (simp add: benchmark_def discard_def andThen_assoc)

lemma StepSequencer_append:
  "StepSequencer (xs @ ys) = andThen (StepSequencer xs) (\<lambda>_. StepSequencer ys)"
  by (induction xs) (simp_all add: andThen_assoc)

lemma runIf_andThen:
  "andThen (runIf b m) (\<lambda>_. k) = (if b then andThen m (\<lambda>_. k) else k)"
  by (simp add: runIf_def)

lemma StepSequencer_optional:
  "StepSequencer ((if b then [st] else []) @ rest)
     = andThen (runIf b (benchmark (fst st) (snd st))) (\<lambda>_. StepSequencer rest)"
  by (simp add: runIf_def)

lemma StepSequencer_Cons:
  "StepSequencer ([st] @ rest) = andThen (benchmark (fst st) (snd st)) (\<lambda>_. StepSequencer rest)"
  by simp

text \<open>
  The source's chain of awaited benchmarks is the specification's sequencer run over the
  enabled steps.
\<close>

lemma provision_refines:
  "provision h argv cfg cwd = StepSequencer (canonicalSteps h argv cfg cwd)"
proof -
  have last: "StepSequencer (if buildWanted argv then [(''Compiling..'', discard (stepBuild h cfg cwd))] else [])
      = runIf (buildWanted argv) (benchmark ''Compiling..'' (stepBuild h cfg cwd))"
    by (simp add: runIf_def benchmark_discard andThen_return_unit andThen_return)
  show ?thesis
    unfolding canonicalSteps_def provision_def
    by (simp only: StepSequencer_Cons StepSequencer_optional last fst_conv snd_conv
        benchmark_discard)
qed

lemma StepSequencer_split:
  assumes "k < length steps"
  shows "StepSequencer steps =
     andThen (StepSequencer (take k steps)) (\<lambda>_.
     andThen (benchmark (fst (steps ! k)) (snd (steps ! k))) (\<lambda>_.
     StepSequencer (drop (Suc k) steps)))"
proof -
  from assms have "steps = take k steps @ steps ! k # drop (Suc k) steps"
    by (rule id_take_nth_drop)
  then have "StepSequencer steps = StepSequencer (take k steps @ steps ! k # drop (Suc k) steps)"
    by simp
  then show ?thesis by (simp only: StepSequencer_append StepSequencer.simps)
qed

lemma benchmark_reports:
  assumes q: "emits {e. \<not> isReport e} cb" and run: "benchmark n cb w = (r, w')"
  shows "\<exists>evs. trace w' = trace w @ evs \<and> stepsStarted evs = [n]
           \<and> stepsFinished evs = (if r = Ok () then [n] else [])"
proof -
  let ?w1 = "w\<lparr>trace := trace w @ [StepStart n]\<rparr>"
  obtain r1 w2 where cb: "cb ?w1 = (r1, w2)" by (cases "cb ?w1")
  from q obtain evs where t: "trace (snd (cb ?w1)) = trace ?w1 @ evs"
      and s: "set evs \<subseteq> {e. \<not> isReport e}"
    by (rule emitsD)
  from s have quiet: "\<forall>e\<in>set evs. \<not> isReport e" by auto
  from t cb have t2: "trace w2 = trace w @ StepStart n # evs" by simp
  show ?thesis
  proof (cases r1)
    case (Ok a)
    with run cb have "r = Ok ()" and "w' = w2\<lparr>trace := trace w2 @ [StepDone n]\<rparr>"
      by (simp_all add: benchmark_def andThen_def emit_def)
    with t2 have "trace w' = trace w @ (StepStart n # evs @ [StepDone n])" by simp
    moreover have "stepsStarted (StepStart n # evs @ [StepDone n]) = [n]"
      by (simp add: stepsStarted_append stepsStarted_quiet [OF quiet])
    moreover have "stepsFinished (StepStart n # evs @ [StepDone n]) = [n]"
      by (simp add: stepsFinished_append stepsFinished_quiet [OF quiet])
    ultimately show ?thesis using \<open>r = Ok ()\<close> by auto
  next
    case (Throw e)
    with run cb have "r = Throw e" and "w' = w2"
      by (simp_all add: benchmark_def andThen_def emit_def)
    with t2 have "trace w' = trace w @ (StepStart n # evs)" by simp
    moreover have "stepsStarted (StepStart n # evs) = [n]"
      by (simp add: stepsStarted_quiet [OF quiet])
    moreover have "stepsFinished (StepStart n # evs) = []"
      by (simp add: stepsFinished_quiet [OF quiet])
    ultimately show ?thesis using \<open>r = Throw e\<close> by auto
  next
    case (Exit k)
    with run cb have "r = Exit k" and "w' = w2"
      by (simp_all add: benchmark_def andThen_def emit_def)
    with t2 have "trace w' = trace w @ (StepStart n # evs)" by simp
    moreover have "stepsStarted (StepStart n # evs) = [n]"
      by (simp add: stepsStarted_quiet [OF quiet])
    moreover have "stepsFinished (StepStart n # evs) = []"
      by (simp add: stepsFinished_quiet [OF quiet])
    ultimately show ?thesis using \<open>r = Exit k\<close> by auto
  qed
qed

lemma StepSequencer_reports:
  assumes "\<forall>st\<in>set steps. emits {e. \<not> isReport e} (snd st)"
    and "StepSequencer steps w = (Ok (), w')"
  shows "\<exists>evs. trace w' = trace w @ evs \<and> stepsStarted evs = map fst steps
           \<and> stepsFinished evs = map fst steps"
  using assms
proof (induction steps arbitrary: w)
  case Nil
  then show ?case by (simp add: return_def)
next
  case (Cons st steps)
  from Cons.prems(2) obtain u w1 where
    b: "benchmark (fst st) (snd st) w = (Ok u, w1)" and rest: "StepSequencer steps w1 = (Ok (), w')"
    unfolding StepSequencer.simps by (erule andThen_OkE)
  from Cons.prems(1) have q: "emits {e. \<not> isReport e} (snd st)" by simp
  from benchmark_reports [OF q b] obtain evs1 where
    1: "trace w1 = trace w @ evs1" "stepsStarted evs1 = [fst st]" "stepsFinished evs1 = [fst st]"
    by auto
  from Cons.prems(1) have "\<forall>s\<in>set steps. emits {e. \<not> isReport e} (snd s)" by simp
  from Cons.IH [OF this rest] obtain evs2 where
    2: "trace w' = trace w1 @ evs2" "stepsStarted evs2 = map fst steps"
       "stepsFinished evs2 = map fst steps"
    by auto
  from 1 2 have "trace w' = trace w @ (evs1 @ evs2)" by simp
  moreover from 1 2 have "stepsStarted (evs1 @ evs2) = map fst (st # steps)"
    by (simp add: stepsStarted_append)
  moreover from 1 2 have "stepsFinished (evs1 @ evs2) = map fst (st # steps)"
    by (simp add: stepsFinished_append)
  ultimately show ?case by blast
qed

lemma emits_discard: "emits S m \<Longrightarrow> emits S (discard m)"
  by (simp add: discard_def emits_andThen)

lemma canonicalSteps_quiet:
  assumes "st \<in> set (canonicalSteps h argv cfg cwd)"
  shows "emits {e. \<not> isReport e} (snd st)"
proof -
  have 1: "emits {e. \<not> isReport e} (stepPackageJson h cfg cwd)"
    unfolding stepPackageJson_def fs_outputFile_def
    by (intro emits_andThen emits_cmd)
      (auto simp: spawnOf_def split: sum.splits intro!: emits_mutate)
  have 2: "emits {e. \<not> isReport e} (stepGit h cwd)"
    by (rule emits_stepGit) (simp_all add: spawnOf_def)
  have 3: "emits {e. \<not> isReport e} (discard (stepInstall h argv cfg cwd))"
    unfolding stepInstall_def by (intro emits_discard emits_cmd) (simp add: spawnOf_def)
  have 4: "emits {e. \<not> isReport e} (stepEslint h cfg cwd)"
    unfolding stepEslint_def fs_outputFile_def by (rule emits_mutate) simp
  have 5: "emits {e. \<not> isReport e} (stepPrettier h cwd)"
    unfolding stepPrettier_def fs_outputFile_def by (rule emits_mutate) simp
  have 6: "emits {e. \<not> isReport e} (stepVscode h cfg cwd)"
    unfolding stepVscode_def fs_outputFile_def by (intro emits_andThen emits_mutate) simp_all
  have 7: "emits {e. \<not> isReport e} (stepCopy h cfg cwd)"
    unfolding stepCopy_def fs_copy_def by (rule emits_mutate) simp
  have 8: "emits {e. \<not> isReport e} (discard (stepBuild h cfg cwd))"
    unfolding stepBuild_def by (intro emits_discard emits_cmd) (simp add: spawnOf_def)
  from assms 1 2 3 4 5 6 7 8 show ?thesis
    by (auto simp: canonicalSteps_def split: if_splits)
qed


text \<open>
  C8. Let the steps before position \<open>k\<close> of the enabled sequence succeed and the action
  of step \<open>k\<close> (counted from 0) throw \<open>e\<close>. Then the provisioning, and with it the
  whole run, throws \<open>e\<close> and the exit code is 1; exactly the steps up to and including
  \<open>k\<close> have started and exactly the steps before \<open>k\<close> have finished, so no later
  step runs; and the run ends in the state the failing action left, whose trace extends
  that of the completed steps: nothing is undone.
\<close>

theorem first_failing_step_stops_the_run:
  assumes k: "k < length (canonicalSteps h argv cfg cwd)"
    and before: "StepSequencer (take k (canonicalSteps h argv cfg cwd)) w = (Ok (), w1)"
    and fails: "snd (canonicalSteps h argv cfg cwd ! k)
                  (w1\<lparr>trace := trace w1 @ [StepStart (fst (canonicalSteps h argv cfg cwd ! k))]\<rparr>)
                = (Throw e, w2)"
  shows "provision h argv cfg cwd w = (Throw e, w2)
       \<and> exitCode (fst (provision h argv cfg cwd w)) = 1
       \<and> (\<exists>evs. trace w2 = trace w @ evs
             \<and> stepsStarted evs = map fst (take (Suc k) (canonicalSteps h argv cfg cwd))
             \<and> stepsFinished evs = map fst (take k (canonicalSteps h argv cfg cwd)))
       \<and> prefix (trace w1) (trace w2)
       \<and> (\<forall>initMode w0 wr.
             resolveDir h argv w0 = (Ok cwd, wr)
             \<and> resolveOptions h argv initMode (probe h) wr = (Ok cfg, w)
             \<and> collisionGuard h cfg cwd w = (Ok (), w)
             \<longrightarrow> init h argv initMode w0 = (Throw e, w2))"
proof -
  let ?steps = "canonicalSteps h argv cfg cwd"
  let ?st = "?steps ! k"
  have step: "benchmark (fst ?st) (snd ?st) w1 = (Throw e, w2)"
    using fails by (simp add: benchmark_def andThen_def emit_def)
  have run: "provision h argv cfg cwd w = (Throw e, w2)"
    unfolding provision_refines StepSequencer_split [OF k]
    by (simp add: andThen_def before step)
  have code: "exitCode (fst (provision h argv cfg cwd w)) = 1"
    by (simp add: run exitCode_def)
  have quiet: "\<forall>st\<in>set (take k ?steps). emits {e. \<not> isReport e} (snd st)"
    by (blast dest: in_set_takeD canonicalSteps_quiet)
  from StepSequencer_reports [OF quiet before] obtain evs1 where
    1: "trace w1 = trace w @ evs1" "stepsStarted evs1 = map fst (take k ?steps)"
       "stepsFinished evs1 = map fst (take k ?steps)"
    by auto
  from k have "?st \<in> set ?steps" by simp
  then have "emits {e. \<not> isReport e} (snd ?st)" by (rule canonicalSteps_quiet)
  from benchmark_reports [OF this step] obtain evs2 where
    2: "trace w2 = trace w1 @ evs2" "stepsStarted evs2 = [fst ?st]" "stepsFinished evs2 = []"
    by auto
  from 1 2 have t: "trace w2 = trace w @ (evs1 @ evs2)" by simp
  from 1 2 k have s: "stepsStarted (evs1 @ evs2) = map fst (take (Suc k) ?steps)"
    by (simp add: stepsStarted_append take_Suc_conv_app_nth)
  from 1 2 have f: "stepsFinished (evs1 @ evs2) = map fst (take k ?steps)"
    by (simp add: stepsFinished_append)
  from t s f have tr: "\<exists>evs. trace w2 = trace w @ evs
             \<and> stepsStarted evs = map fst (take (Suc k) ?steps)
             \<and> stepsFinished evs = map fst (take k ?steps)"
    by blast
  from 2 have kept: "prefix (trace w1) (trace w2)" by simp
  have top: "\<forall>initMode w0 wr.
             resolveDir h argv w0 = (Ok cwd, wr)
             \<and> resolveOptions h argv initMode (probe h) wr = (Ok cfg, w)
             \<and> collisionGuard h cfg cwd w = (Ok (), w)
             \<longrightarrow> init h argv initMode w0 = (Throw e, w2)"
  proof (intro allI impI, elim conjE)
    fix initMode w0 wr
    assume a: "resolveDir h argv w0 = (Ok cwd, wr)"
      and b: "resolveOptions h argv initMode (probe h) wr = (Ok cfg, w)"
      and c: "collisionGuard h cfg cwd w = (Ok (), w)"
    show "init h argv initMode w0 = (Throw e, w2)"
      unfolding init_after_resolution [OF a b] by (simp add: andThen_def c run)
  qed
  from run code tr kept top show ?thesis by (intro conjI)
qed

text \<open>A run with \<open>--yes\<close> on a host where \<open>git init\<close> exits with code 128.\<close>

theorem first_failing_step_stops_the_run_witness:
  "fst (init (scriptedHost allInstalled (\<lambda>q. Answer True)
                (\<lambda>c. if c = ''git'' then Some 128 else Some 0))
          (noOptions\<lparr>yes := Some True\<rparr>) Game (start templatesOnly))
     = Throw (InitError (CommandExited ''git init'' (Some 128) []))
   \<and> stepsStarted (trace (snd (init (scriptedHost allInstalled (\<lambda>q. Answer True)
                (\<lambda>c. if c = ''git'' then Some 128 else Some 0))
          (noOptions\<lparr>yes := Some True\<rparr>) Game (start templatesOnly))))
     = [''Initializing package.json..'', ''Initializing Git..'']
   \<and> stepsFinished (trace (snd (init (scriptedHost allInstalled (\<lambda>q. Answer True)
                (\<lambda>c. if c = ''git'' then Some 128 else Some 0))
          (noOptions\<lparr>yes := Some True\<rparr>) Game (start templatesOnly))))
     = [''Initializing package.json..'']"
proof -
  let ?h = "scriptedHost allInstalled (\<lambda>q. Answer True)
                (\<lambda>c. if c = ''git'' then Some 128 else Some 0)"
  let ?argv = "noOptions\<lparr>yes := Some True\<rparr>"
  let ?cfg = "\<lparr>r_template = Game, r_git = True, r_eslint = True, r_prettier = True,
           r_vscode = True, r_packageManager = NPM\<rparr>"
  let ?w = "\<lparr>fsys = (''/work/proj'', DirNode []) # templatesOnly, trace = [EnsureDir ''/work/proj'']\<rparr>"
  let ?steps = "canonicalSteps ?h ?argv ?cfg ''/work/proj''"
  let ?e = "InitError (CommandExited ''git init'' (Some 128) [])"
  define w1 where "w1 = snd (StepSequencer (take 1 ?steps) ?w)"
  define w2 where "w2 = snd (snd (?steps ! 1) (w1\<lparr>trace := trace w1 @ [StepStart (fst (?steps ! 1))]\<rparr>))"
  have k: "1 < length ?steps"
    by (simp add: canonicalSteps_def)
  have "fst (StepSequencer (take 1 ?steps) ?w) = Ok ()"
    by (simp add: canonicalSteps_def provision_defs host_defs)
  then have before: "StepSequencer (take 1 ?steps) ?w = (Ok (), w1)"
    by (simp add: w1_def prod_eq_iff)
  have "fst (snd (?steps ! 1) (w1\<lparr>trace := trace w1 @ [StepStart (fst (?steps ! 1))]\<rparr>)) = Throw ?e"
    by (simp add: w1_def canonicalSteps_def provision_defs host_defs)
  then have fails: "snd (?steps ! 1) (w1\<lparr>trace := trace w1 @ [StepStart (fst (?steps ! 1))]\<rparr>)
      = (Throw ?e, w2)"
    by (simp add: w2_def prod_eq_iff)
  have a: "resolveDir ?h ?argv (start templatesOnly) = (Ok ''/work/proj'', ?w)"
    by (simp add: host_defs resolve_defs)
  have b: "resolveOptions ?h ?argv Game (probe ?h) ?w = (Ok ?cfg, ?w)"
    by (simp add: probe_defs host_defs resolve_defs)
  have c: "collisionGuard ?h ?cfg ''/work/proj'' ?w = (Ok (), ?w)"
    by (rule collisionGuard_Ok [where fileNames = "[''src'', ''default.project.json'']"])
      (simp_all add: guard_defs host_defs)
  note stops = first_failing_step_stops_the_run [OF k before fails]
  from stops have top: "init ?h ?argv Game (start templatesOnly) = (Throw ?e, w2)"
    using a b c by blast
  from stops obtain evs where tr: "trace w2 = trace ?w @ evs"
    and s: "stepsStarted evs = map fst (take (Suc 1) ?steps)"
    and f: "stepsFinished evs = map fst (take 1 ?steps)"
    by blast
  have "stepsStarted (trace w2) = [''Initializing package.json..'', ''Initializing Git..'']"
    by (simp add: tr s stepsStarted_append canonicalSteps_def)
  moreover have "stepsFinished (trace w2) = [''Initializing package.json..'']"
    by (simp add: tr f stepsFinished_append canonicalSteps_def)
  ultimately show ?thesis by (simp add: top)
qed

section \<open>Cancellation\<close>

lemma noExit_return [simp]: "noExit (return x)"
  by (simp add: noExit_def return_def)

lemma noExit_throw [simp]: "noExit (throw e)"
  by (simp add: noExit_def throw_def)

lemma noExit_emit [simp]: "noExit (emit e)"
  by (simp add: noExit_def emit_def)

lemma noExit_andThen:
  assumes "noExit m" and "\<And>a. noExit (f a)"
  shows "noExit (andThen m f)"
  unfolding noExit_def
proof (intro allI)
  fix w n
  show "fst (andThen m f w) \<noteq> Exit n"
  proof (cases rule: andThen_cases [of m w f])
    case (ok a w')
    with assms(2) [of a] show ?thesis by (simp add: noExit_def)
  next
    case (throw e w')
    then show ?thesis by simp
  next
    case (exit k w')
    with assms(1) show ?thesis by (auto simp: noExit_def dest: spec [of _ w])
  qed
qed

lemma noExit_runIf: "(b \<Longrightarrow> noExit m) \<Longrightarrow> noExit (runIf b m)"
  by (simp add: runIf_def)

lemma noExit_mutate [simp]: "noExit (mutate ev f)"
  by (simp add: noExit_def mutate_def split: prod.splits option.splits)

lemma noExit_cmd [simp]: "noExit (cmd h c cwd)"
  by (simp add: noExit_def cmd_def Let_def split: prod.splits spawned.splits)

lemma noExit_fs_pathExists [simp]: "noExit (fs_pathExists h p)"
  by (simp add: noExit_def fs_pathExists_def)

lemma noExit_fs_stat [simp]: "noExit (fs_stat h p)"
  by (simp add: noExit_def fs_stat_def split: sum.splits)

lemma noExit_fs_readJson [simp]: "noExit (fs_readJson h p)"
  by (simp add: noExit_def fs_readJson_def split: sum.splits)

lemma noExit_collisionGuard [simp]: "noExit (collisionGuard h cfg cwd)"
  by (simp add: noExit_def collisionGuard_no_Exit)

lemma noExit_benchmark: "noExit cb \<Longrightarrow> noExit (benchmark n cb)"
  by (simp add: benchmark_def noExit_andThen)

lemma noExit_stepGit [simp]: "noExit (stepGit h cwd)"
proof -
  have "fst (stepGit h cwd w) \<noteq> Exit n" for w n
  proof (cases "cmd h ''git init'' cwd w")
    case (Pair r w')
    have c: "r \<noteq> Exit k" for k
      using noExit_cmd [of h "''git init''" cwd] Pair by (auto simp: noExit_def dest: spec [of _ w])
    have m: "fst (fs_outputFile h p x w') \<noteq> Exit n" for p x
      using noExit_mutate [of "OutputFile p x" "outputFile h p x"]
      by (simp add: noExit_def fs_outputFile_def)
    show ?thesis
    proof (cases r)
      case (Ok out)
      with Pair m show ?thesis by (simp add: stepGit_def)
    next
      case (Throw e)
      with Pair show ?thesis by (cases e) (simp_all add: stepGit_def)
    next
      case (Exit k)
      with c [of k] show ?thesis by simp
    qed
  qed
  then show ?thesis by (simp add: noExit_def)
qed

lemma noExit_stepPackageJson [simp]: "noExit (stepPackageJson h cfg cwd)"
  unfolding stepPackageJson_def fs_outputFile_def
  by (intro noExit_andThen noExit_cmd noExit_fs_readJson) (simp split: sum.splits)

lemma noExit_provision: "noExit (provision h argv cfg cwd)"
  unfolding provision_def stepInstall_def stepEslint_def stepPrettier_def stepVscode_def
    stepCopy_def stepBuild_def fs_outputFile_def fs_copy_def
  by (intro noExit_andThen noExit_runIf noExit_benchmark noExit_stepPackageJson noExit_stepGit
      noExit_cmd noExit_mutate)

lemma heedsI:
  assumes "\<And>w. \<exists>evs. trace (snd (m w)) = trace w @ evs \<and>
        ((fst (m w) = Exit 1 \<and> evs \<noteq> [] \<and> (\<exists>q. last evs = Asked q \<and> cancelled h q)) \<or>
         ((\<forall>n. fst (m w) \<noteq> Exit n) \<and> (\<forall>q. Asked q \<in> set evs \<longrightarrow> \<not> cancelled h q)))"
  shows "heeds h m"
  using assms by (simp add: heeds_def)

lemma heedsD:
  assumes "heeds h m"
  shows "\<exists>evs. trace (snd (m w)) = trace w @ evs \<and>
        ((fst (m w) = Exit 1 \<and> evs \<noteq> [] \<and> (\<exists>q. last evs = Asked q \<and> cancelled h q)) \<or>
         ((\<forall>n. fst (m w) \<noteq> Exit n) \<and> (\<forall>q. Asked q \<in> set evs \<longrightarrow> \<not> cancelled h q)))"
  using assms unfolding heeds_def by blast

lemma heeds_quiet:
  assumes e: "emits {e. \<not> isPrompt e} m" and n: "noExit m"
  shows "heeds h m"
proof (rule heedsI)
  fix w
  from e obtain evs where t: "trace (snd (m w)) = trace w @ evs"
      and s: "set evs \<subseteq> {e. \<not> isPrompt e}"
    by (rule emitsD)
  from s have "\<forall>q. Asked q \<notin> set evs" by auto
  moreover from n have "\<forall>k. fst (m w) \<noteq> Exit k" by (simp add: noExit_def)
  ultimately show "\<exists>evs. trace (snd (m w)) = trace w @ evs \<and>
        ((fst (m w) = Exit 1 \<and> evs \<noteq> [] \<and> (\<exists>q. last evs = Asked q \<and> cancelled h q)) \<or>
         ((\<forall>n. fst (m w) \<noteq> Exit n) \<and> (\<forall>q. Asked q \<in> set evs \<longrightarrow> \<not> cancelled h q)))"
    using t by blast
qed

lemma heeds_return [simp]: "heeds h (return x)"
  by (rule heeds_quiet) simp_all

lemma heeds_andThen:
  assumes m: "heeds h m" and f: "\<And>a. heeds h (f a)"
  shows "heeds h (andThen m f)"
proof (rule heedsI)
  fix w
  let ?goal = "\<exists>evs. trace (snd (andThen m f w)) = trace w @ evs \<and>
        ((fst (andThen m f w) = Exit 1 \<and> evs \<noteq> [] \<and> (\<exists>q. last evs = Asked q \<and> cancelled h q)) \<or>
         ((\<forall>n. fst (andThen m f w) \<noteq> Exit n) \<and> (\<forall>q. Asked q \<in> set evs \<longrightarrow> \<not> cancelled h q)))"
  from heedsD [OF m, of w] obtain evs1 where t1: "trace (snd (m w)) = trace w @ evs1"
    and d1: "(fst (m w) = Exit 1 \<and> evs1 \<noteq> [] \<and> (\<exists>q. last evs1 = Asked q \<and> cancelled h q)) \<or>
         ((\<forall>n. fst (m w) \<noteq> Exit n) \<and> (\<forall>q. Asked q \<in> set evs1 \<longrightarrow> \<not> cancelled h q))"
    by blast
  show ?goal
  proof (cases rule: andThen_cases [of m w f])
    case (ok a w')
    with d1 have q1: "\<forall>q. Asked q \<in> set evs1 \<longrightarrow> \<not> cancelled h q" by simp
    from heedsD [OF f, of a w'] obtain evs2 where t2: "trace (snd (f a w')) = trace w' @ evs2"
      and d2: "(fst (f a w') = Exit 1 \<and> evs2 \<noteq> [] \<and> (\<exists>q. last evs2 = Asked q \<and> cancelled h q)) \<or>
         ((\<forall>n. fst (f a w') \<noteq> Exit n) \<and> (\<forall>q. Asked q \<in> set evs2 \<longrightarrow> \<not> cancelled h q))"
      by blast
    from ok t1 t2 have t: "trace (snd (andThen m f w)) = trace w @ (evs1 @ evs2)" by simp
    from d2 show ?thesis
    proof
      assume "fst (f a w') = Exit 1 \<and> evs2 \<noteq> [] \<and> (\<exists>q. last evs2 = Asked q \<and> cancelled h q)"
      then have "fst (andThen m f w) = Exit 1 \<and> evs1 @ evs2 \<noteq> []
          \<and> (\<exists>q. last (evs1 @ evs2) = Asked q \<and> cancelled h q)"
        using ok by simp
      with t show ?thesis by blast
    next
      assume "(\<forall>n. fst (f a w') \<noteq> Exit n) \<and> (\<forall>q. Asked q \<in> set evs2 \<longrightarrow> \<not> cancelled h q)"
      with q1 ok have "(\<forall>n. fst (andThen m f w) \<noteq> Exit n)
          \<and> (\<forall>q. Asked q \<in> set (evs1 @ evs2) \<longrightarrow> \<not> cancelled h q)"
        by auto
      with t show ?thesis by blast
    qed
  next
    case (throw e w')
    with d1 t1 show ?thesis by auto
  next
    case (exit n w')
    with d1 t1 show ?thesis by auto
  qed
qed

lemma heeds_ask_general:
  assumes shown: "\<And>w. m w = (if reply = None then (Exit 1, w\<lparr>trace := trace w @ [Asked name]\<rparr>)
                          else (Ok reply, w\<lparr>trace := trace w @ [Asked name]\<rparr>))"
    and c: "cancelled h name \<longleftrightarrow> reply = None"
  shows "heeds h m"
proof (rule heedsI)
  fix w
  show "\<exists>evs. trace (snd (m w)) = trace w @ evs \<and>
        ((fst (m w) = Exit 1 \<and> evs \<noteq> [] \<and> (\<exists>q. last evs = Asked q \<and> cancelled h q)) \<or>
         ((\<forall>n. fst (m w) \<noteq> Exit n) \<and> (\<forall>q. Asked q \<in> set evs \<longrightarrow> \<not> cancelled h q)))"
    by (rule exI [of _ "[Asked name]"]) (use c in \<open>simp add: shown\<close>)
qed

lemma heeds_askText: "heeds h (askText h applies ''dir'')"
proof (cases applies)
  case False
  then show ?thesis by (simp add: askText_def)
next
  case True
  show ?thesis
  proof (rule heeds_ask_general [where name = "''dir''"
        and reply = "case textReply h ''dir'' of Answer v \<Rightarrow> Some v | Cancel \<Rightarrow> None"])
    show "askText h applies ''dir'' w =
      (if (case textReply h ''dir'' of Answer v \<Rightarrow> Some v | Cancel \<Rightarrow> None) = None
       then (Exit 1, w\<lparr>trace := trace w @ [Asked ''dir'']\<rparr>)
       else (Ok (case textReply h ''dir'' of Answer v \<Rightarrow> Some v | Cancel \<Rightarrow> None),
             w\<lparr>trace := trace w @ [Asked ''dir'']\<rparr>))" for w
      using True
      by (simp add: askText_def andThen_def emit_def return_def processExit_def split: reply.splits)
    show "cancelled h ''dir'' \<longleftrightarrow>
        (case textReply h ''dir'' of Answer v \<Rightarrow> Some v | Cancel \<Rightarrow> None) = None"
      by (simp add: cancelled_def split: reply.splits)
  qed
qed

lemma heeds_askConfirm:
  assumes "name \<in> {''git'', ''eslint'', ''prettier'', ''vscode''}"
  shows "heeds h (askConfirm h applies name)"
proof (cases applies)
  case False
  then show ?thesis by (simp add: askConfirm_def)
next
  case True
  show ?thesis
  proof (rule heeds_ask_general [where name = name
        and reply = "case confirmReply h name of Answer v \<Rightarrow> Some v | Cancel \<Rightarrow> None"])
    show "askConfirm h applies name w =
      (if (case confirmReply h name of Answer v \<Rightarrow> Some v | Cancel \<Rightarrow> None) = None
       then (Exit 1, w\<lparr>trace := trace w @ [Asked name]\<rparr>)
       else (Ok (case confirmReply h name of Answer v \<Rightarrow> Some v | Cancel \<Rightarrow> None),
             w\<lparr>trace := trace w @ [Asked name]\<rparr>))" for w
      using True
      by (simp add: askConfirm_def andThen_def emit_def return_def processExit_def
          split: reply.splits)
    show "cancelled h name \<longleftrightarrow>
        (case confirmReply h name of Answer v \<Rightarrow> Some v | Cancel \<Rightarrow> None) = None"
      using assms by (auto simp: cancelled_def split: reply.splits)
  qed
qed


lemma heeds_askSelect:
  assumes "name \<in> {''template'', ''packageManager''}"
  shows "heeds h (askSelect h applies name choices)"
proof (cases applies)
  case False
  then show ?thesis by (simp add: askSelect_def)
next
  case True
  have shown: "askSelect h applies name choices w =
      (case selectReply h name of
         Answer i \<Rightarrow> (Ok (if choices = [] then None
                           else Some (choices ! min i (length choices - 1))),
                       w\<lparr>trace := trace w @ [Asked name]\<rparr>)
       | Cancel \<Rightarrow> (Exit 1, w\<lparr>trace := trace w @ [Asked name]\<rparr>))" for w
    using True
    by (simp add: askSelect_def andThen_def emit_def return_def processExit_def
        split: reply.splits)
  have c: "cancelled h name \<longleftrightarrow> selectReply h name = Cancel"
    using assms by (auto simp: cancelled_def)
  show ?thesis
  proof (rule heedsI)
    fix w
    show "\<exists>evs. trace (snd (askSelect h applies name choices w)) = trace w @ evs \<and>
        ((fst (askSelect h applies name choices w) = Exit 1 \<and> evs \<noteq> []
            \<and> (\<exists>q. last evs = Asked q \<and> cancelled h q)) \<or>
         ((\<forall>n. fst (askSelect h applies name choices w) \<noteq> Exit n)
            \<and> (\<forall>q. Asked q \<in> set evs \<longrightarrow> \<not> cancelled h q)))"
      by (rule exI [of _ "[Asked name]"]) (simp add: shown c split: reply.splits)
  qed
qed

lemma heeds_resolveOptions: "heeds h (resolveOptions h argv initMode av)"
  unfolding resolveOptions_def
  by (intro heeds_andThen heeds_askSelect heeds_askConfirm heeds_return) simp_all

lemma heeds_resolveDir: "heeds h (resolveDir h argv)"
proof -
  have rest: "heeds h
     (case (case answer of Some d \<Rightarrow> Some d | None \<Rightarrow> dir argv) of
         None \<Rightarrow> throw (JsError ''TypeError'')
       | Some d \<Rightarrow>
           andThen (fs_pathExists h (resolve h d)) (\<lambda>found.
           andThen (runIf (\<not> found) (fs_ensureDir h (resolve h d))) (\<lambda>_.
           andThen (fs_stat h (resolve h d)) (\<lambda>st.
             if \<not> isDirectory st then throw (InitError (NotADirectory (resolve h d)))
             else return (resolve h d)))))" for answer
  proof (rule heeds_quiet)
    show "emits {e. \<not> isPrompt e}
     (case (case answer of Some d \<Rightarrow> Some d | None \<Rightarrow> dir argv) of
         None \<Rightarrow> throw (JsError ''TypeError'')
       | Some d \<Rightarrow>
           andThen (fs_pathExists h (resolve h d)) (\<lambda>found.
           andThen (runIf (\<not> found) (fs_ensureDir h (resolve h d))) (\<lambda>_.
           andThen (fs_stat h (resolve h d)) (\<lambda>st.
             if \<not> isDirectory st then throw (InitError (NotADirectory (resolve h d)))
             else return (resolve h d)))))"
      unfolding fs_ensureDir_def
      by (auto split: option.splits intro!: emits_andThen emits_runIf emits_mutate)
    show "noExit
     (case (case answer of Some d \<Rightarrow> Some d | None \<Rightarrow> dir argv) of
         None \<Rightarrow> throw (JsError ''TypeError'')
       | Some d \<Rightarrow>
           andThen (fs_pathExists h (resolve h d)) (\<lambda>found.
           andThen (runIf (\<not> found) (fs_ensureDir h (resolve h d))) (\<lambda>_.
           andThen (fs_stat h (resolve h d)) (\<lambda>st.
             if \<not> isDirectory st then throw (InitError (NotADirectory (resolve h d)))
             else return (resolve h d)))))"
      unfolding fs_ensureDir_def
      by (auto split: option.splits intro!: noExit_andThen noExit_runIf)
  qed
  show ?thesis
    unfolding resolveDir_def by (intro heeds_andThen heeds_askText rest)
qed

lemma heeds_init: "heeds h (init h argv initMode)"
proof -
  have tail: "heeds h (andThen (collisionGuard h cfg cwd) (\<lambda>_. provision h argv cfg cwd))"
    for cfg cwd
  proof (rule heeds_quiet)
    show "emits {e. \<not> isPrompt e}
        (andThen (collisionGuard h cfg cwd) (\<lambda>_. provision h argv cfg cwd))"
    proof (intro emits_andThen emits_collisionGuard emits_provision)
      show "isProvisioning e \<Longrightarrow> e \<in> {e. \<not> isPrompt e}" for e by (cases e) simp_all
    qed
    show "noExit (andThen (collisionGuard h cfg cwd) (\<lambda>_. provision h argv cfg cwd))"
      by (intro noExit_andThen noExit_collisionGuard noExit_provision)
  qed
  show ?thesis
    unfolding init_def by (intro heeds_andThen heeds_resolveDir heeds_resolveOptions tail)
qed

lemma init_Exit_events:
  assumes "fst (init h argv initMode w) = Exit n"
  shows "\<exists>evs. trace (snd (init h argv initMode w)) = trace w @ evs
           \<and> (\<forall>e\<in>set evs. isPrompt e \<or> (\<exists>d. e = EnsureDir (resolve h d)))"
proof -
  let ?S = "{e. isPrompt e \<or> (\<exists>d. e = EnsureDir (resolve h d))}"
  have ed: "emits ?S (resolveDir h argv)"
    by (rule emits_resolveDir) auto
  have eo: "emits ?S (resolveOptions h argv initMode (probe h))"
    by (rule emits_resolveOptions) simp_all
  from ed obtain evs1 where 1: "trace (snd (resolveDir h argv w)) = trace w @ evs1" "set evs1 \<subseteq> ?S"
    by (rule emitsD)
  show ?thesis
  proof (cases rule: andThen_cases [of "resolveDir h argv" w
        "\<lambda>cwd. andThen (resolveOptions h argv initMode (probe h)) (\<lambda>cfg.
           andThen (collisionGuard h cfg cwd) (\<lambda>_. provision h argv cfg cwd))"])
    case (exit k w')
    then have "snd (init h argv initMode w) = w'" by (simp add: init_def)
    with 1 exit show ?thesis by auto
  next
    case (throw e w')
    with assms show ?thesis by (simp add: init_def)
  next
    case (ok cwd w1)
    from eo obtain evs2 where
      2: "trace (snd (resolveOptions h argv initMode (probe h) w1)) = trace w1 @ evs2" "set evs2 \<subseteq> ?S"
      by (rule emitsD)
    show ?thesis
    proof (cases rule: andThen_cases [of "resolveOptions h argv initMode (probe h)" w1
          "\<lambda>cfg. andThen (collisionGuard h cfg cwd) (\<lambda>_. provision h argv cfg cwd)"])
      case (exit k w')
      with ok have "snd (init h argv initMode w) = w'" by (simp add: init_def)
      moreover from 1 2 ok exit have "trace w' = trace w @ (evs1 @ evs2)" by simp
      moreover from 1 2 have "\<forall>e\<in>set (evs1 @ evs2). isPrompt e \<or> (\<exists>d. e = EnsureDir (resolve h d))"
        by auto
      ultimately show ?thesis by metis
    next
      case (throw e w')
      with ok assms show ?thesis by (simp add: init_def)
    next
      case inner: (ok cfg w2)
      have "noExit (andThen (collisionGuard h cfg cwd) (\<lambda>_. provision h argv cfg cwd))"
        by (intro noExit_andThen noExit_collisionGuard noExit_provision)
      then have "fst (andThen (collisionGuard h cfg cwd) (\<lambda>_. provision h argv cfg cwd) w2) \<noteq> Exit n"
        by (simp add: noExit_def)
      with ok inner assms show ?thesis by (simp add: init_def)
    qed
  qed
qed

text \<open>
  C9, amended. In every run: when a prompt that was shown is cancelled, the run ends with
  exit status 1 right after that prompt, and everything it has done is to show prompts
  and, at most, to create the missing target directory: no step has started, no command
  has run, no file has been written or copied. A run only ever exits this way. A
  cancellation at the directory prompt leaves the file system untouched.
\<close>

theorem cancellation_exits_before_provisioning:
  "\<exists>evs. trace (snd (init h argv initMode w)) = trace w @ evs
     \<and> ((\<exists>q. Asked q \<in> set evs \<and> cancelled h q) \<longrightarrow>
           fst (init h argv initMode w) = Exit 1
         \<and> (\<exists>q. last evs = Asked q \<and> cancelled h q)
         \<and> (\<forall>e\<in>set evs. isPrompt e \<or> (\<exists>d. e = EnsureDir (resolve h d))))
     \<and> ((\<exists>n. fst (init h argv initMode w) = Exit n) \<longrightarrow>
           fst (init h argv initMode w) = Exit 1 \<and> (\<exists>q. Asked q \<in> set evs \<and> cancelled h q))
     \<and> (dir argv = None \<and> textReply h ''dir'' = Cancel \<longrightarrow>
           init h argv initMode w = (Exit 1, w\<lparr>trace := trace w @ [Asked ''dir'']\<rparr>))"
proof -
  let ?r = "fst (init h argv initMode w)"
  from heedsD [OF heeds_init, of h argv initMode w] obtain evs where
    t: "trace (snd (init h argv initMode w)) = trace w @ evs"
    and d: "(?r = Exit 1 \<and> evs \<noteq> [] \<and> (\<exists>q. last evs = Asked q \<and> cancelled h q)) \<or>
         ((\<forall>n. ?r \<noteq> Exit n) \<and> (\<forall>q. Asked q \<in> set evs \<longrightarrow> \<not> cancelled h q))"
    by blast
  have events: "\<forall>e\<in>set evs. isPrompt e \<or> (\<exists>d. e = EnsureDir (resolve h d))" if "?r = Exit n" for n
  proof -
    from init_Exit_events [OF that] obtain evs' where
      "trace (snd (init h argv initMode w)) = trace w @ evs'"
      and e: "\<forall>e\<in>set evs'. isPrompt e \<or> (\<exists>d. e = EnsureDir (resolve h d))"
      by blast
    with t have "evs' = evs" by simp
    with e show ?thesis by simp
  qed
  have a: "(\<exists>q. Asked q \<in> set evs \<and> cancelled h q) \<longrightarrow>
           ?r = Exit 1
         \<and> (\<exists>q. last evs = Asked q \<and> cancelled h q)
         \<and> (\<forall>e\<in>set evs. isPrompt e \<or> (\<exists>d. e = EnsureDir (resolve h d)))"
  proof
    assume "\<exists>q. Asked q \<in> set evs \<and> cancelled h q"
    with d have x: "?r = Exit 1 \<and> evs \<noteq> [] \<and> (\<exists>q. last evs = Asked q \<and> cancelled h q)" by blast
    with events [of 1] show "?r = Exit 1
         \<and> (\<exists>q. last evs = Asked q \<and> cancelled h q)
         \<and> (\<forall>e\<in>set evs. isPrompt e \<or> (\<exists>d. e = EnsureDir (resolve h d)))"
      by blast
  qed
  have b: "(\<exists>n. ?r = Exit n) \<longrightarrow> ?r = Exit 1 \<and> (\<exists>q. Asked q \<in> set evs \<and> cancelled h q)"
  proof
    assume "\<exists>n. ?r = Exit n"
    with d have x: "?r = Exit 1 \<and> evs \<noteq> [] \<and> (\<exists>q. last evs = Asked q \<and> cancelled h q)" by blast
    then obtain q where "last evs = Asked q" and "cancelled h q" and "evs \<noteq> []" by blast
    then have "Asked q \<in> set evs \<and> cancelled h q" by (metis last_in_set)
    with x show "?r = Exit 1 \<and> (\<exists>q. Asked q \<in> set evs \<and> cancelled h q)" by blast
  qed
  have c: "dir argv = None \<and> textReply h ''dir'' = Cancel \<longrightarrow>
           init h argv initMode w = (Exit 1, w\<lparr>trace := trace w @ [Asked ''dir'']\<rparr>)"
    by (simp add: init_def resolveDir_def askText_def andThen_def emit_def processExit_def)
  from t a b c show ?thesis by (intro exI [of _ evs] conjI)
qed

text \<open>
  C9 as stated fails: with a target directory that does not exist yet, the directory is
  created (lines 99-101) before the feature prompts; cancelling the linter prompt ends
  the run with status 1 after that creation.
\<close>

theorem cancellation_after_mkdir_counterexample:
  "cancelled (scriptedHost allInstalled (\<lambda>q. if q = ''eslint'' then Cancel else Answer True)
               (\<lambda>c. Some 0)) ''eslint''
   \<and> pathExists (scriptedHost allInstalled (\<lambda>q. if q = ''eslint'' then Cancel else Answer True)
               (\<lambda>c. Some 0)) (fsys (start templatesOnly)) ''/work/proj'' = False
   \<and> init (scriptedHost allInstalled (\<lambda>q. if q = ''eslint'' then Cancel else Answer True)
               (\<lambda>c. Some 0)) noOptions Game (start templatesOnly)
     = (Exit 1,
        \<lparr>fsys = (''/work/proj'', DirNode []) # templatesOnly,
         trace = [EnsureDir ''/work/proj'', Asked ''git'', Asked ''eslint'']\<rparr>)"
  by (simp add: cancelled_def init_def probe_defs host_defs resolve_defs)

text \<open>A run into an existing directory, cancelled at the editor-settings prompt.\<close>

theorem cancellation_exits_before_provisioning_witness:
  "cancelled (scriptedHost allInstalled (\<lambda>q. if q = ''vscode'' then Cancel else Answer False)
               (\<lambda>c. Some 0)) ''vscode''
   \<and> fst (init (scriptedHost allInstalled (\<lambda>q. if q = ''vscode'' then Cancel else Answer False)
               (\<lambda>c. Some 0)) noOptions Game (start occupied)) = Exit 1
   \<and> trace (snd (init (scriptedHost allInstalled (\<lambda>q. if q = ''vscode'' then Cancel else Answer False)
               (\<lambda>c. Some 0)) noOptions Game (start occupied)))
     = [Asked ''git'', Asked ''eslint'', Asked ''prettier'', Asked ''vscode'']"
proof -
  let ?h = "scriptedHost allInstalled (\<lambda>q. if q = ''vscode'' then Cancel else Answer False)
               (\<lambda>c. Some 0)"
  let ?run = "init ?h noOptions Game (start occupied)"
  have c: "cancelled ?h ''vscode''"
    by (simp add: cancelled_def host_defs)
  have asked: "trace (snd ?run)
      = [Asked ''git'', Asked ''eslint'', Asked ''prettier'', Asked ''vscode'']"
    by (simp add: init_def probe_defs host_defs resolve_defs)
  from cancellation_exits_before_provisioning [of ?h noOptions Game "start occupied"]
  obtain evs where t: "trace (snd ?run) = trace (start occupied) @ evs"
    and a: "(\<exists>q. Asked q \<in> set evs \<and> cancelled ?h q) \<longrightarrow>
           fst ?run = Exit 1
         \<and> (\<exists>q. last evs = Asked q \<and> cancelled ?h q)
         \<and> (\<forall>e\<in>set evs. isPrompt e \<or> (\<exists>d. e = EnsureDir (resolve ?h d)))"
    by (elim exE conjE)
  from t asked have evs: "evs = [Asked ''git'', Asked ''eslint'', Asked ''prettier'', Asked ''vscode'']"
    by (simp add: start_def)
  with c have "\<exists>q. Asked q \<in> set evs \<and> cancelled ?h q" by auto
  with a have "fst ?run = Exit 1" by (elim impE conjE)
  with c t evs show ?thesis by (simp add: start_def)
qed

section \<open>The sole available package manager\<close>

text \<open>
  C1. The code diverges from the claim. On a host where pnpm is the only package manager
  found (and every other command exits with code 127), a run without
  \<open>--packageManager\<close> counts one candidate and is not asked, as claimed, but resolves
  to npm, which is not the available candidate; the first provisioning step then runs
  \<open>npm init -y\<close> and the run fails.
\<close>

theorem sole_pnpm_resolves_to_npm:
  "packageManagerCount
     (probe (scriptedHost pnpmOnly (\<lambda>q. Answer True)
               (\<lambda>c. if c = ''pnpm'' then Some 0 else Some 127))) = 1
   \<and> packageManagerExistance
        (probe (scriptedHost pnpmOnly (\<lambda>q. Answer True)
                  (\<lambda>c. if c = ''pnpm'' then Some 0 else Some 127))) PNPM
   \<and> \<not> packageManagerExistance
          (probe (scriptedHost pnpmOnly (\<lambda>q. Answer True)
                    (\<lambda>c. if c = ''pnpm'' then Some 0 else Some 127))) NPM
   \<and> packageManager noOptions = None
   \<and> resolveOptions (scriptedHost pnpmOnly (\<lambda>q. Answer True)
                       (\<lambda>c. if c = ''pnpm'' then Some 0 else Some 127)) noOptions Game
        (probe (scriptedHost pnpmOnly (\<lambda>q. Answer True)
                  (\<lambda>c. if c = ''pnpm'' then Some 0 else Some 127)))
        \<lparr>fsys = (''/work/proj'', DirNode []) # templatesOnly, trace = [EnsureDir ''/work/proj'']\<rparr>
       = (Ok \<lparr>r_template = Game, r_git = False, r_eslint = True, r_prettier = True,
              r_vscode = True, r_packageManager = NPM\<rparr>,
          \<lparr>fsys = (''/work/proj'', DirNode []) # templatesOnly,
           trace = [EnsureDir ''/work/proj'', Asked ''eslint'', Asked ''prettier'',
                    Asked ''vscode'']\<rparr>)
   \<and> fst (init (scriptedHost pnpmOnly (\<lambda>q. Answer True)
                  (\<lambda>c. if c = ''pnpm'' then Some 0 else Some 127)) noOptions Game
             (start templatesOnly))
       = Throw (InitError (CommandExited ''npm init -y'' (Some 127) []))"
proof -
  let ?h = "scriptedHost pnpmOnly (\<lambda>q. Answer True)
              (\<lambda>c. if c = ''pnpm'' then Some 0 else Some 127)"
  let ?cfg = "\<lparr>r_template = Game, r_git = False, r_eslint = True, r_prettier = True,
              r_vscode = True, r_packageManager = NPM\<rparr>"
  let ?w1 = "\<lparr>fsys = (''/work/proj'', DirNode []) # templatesOnly, trace = [EnsureDir ''/work/proj'']\<rparr>"
  let ?w2 = "\<lparr>fsys = (''/work/proj'', DirNode []) # templatesOnly,
           trace = [EnsureDir ''/work/proj'', Asked ''eslint'', Asked ''prettier'',
                    Asked ''vscode'']\<rparr>"
  have 1: "packageManagerCount (probe ?h) = 1"
    by (simp add: probe_defs host_defs)
  have 2: "packageManagerExistance (probe ?h) PNPM"
    by (simp add: probe_defs host_defs)
  have 3: "\<not> packageManagerExistance (probe ?h) NPM"
    by (simp add: probe_defs host_defs)
  have 4: "packageManager noOptions = None"
    by (simp add: noOptions_def)
  have a: "resolveDir ?h noOptions (start templatesOnly) = (Ok ''/work/proj'', ?w1)"
    by (simp add: host_defs resolve_defs)
  have b: "resolveOptions ?h noOptions Game (probe ?h) ?w1 = (Ok ?cfg, ?w2)"
    by (simp add: probe_defs host_defs resolve_defs)
  have c: "collisionGuard ?h ?cfg ''/work/proj'' ?w2 = (Ok (), ?w2)"
    by (rule collisionGuard_Ok [where fileNames = "[''src'', ''default.project.json'']"])
      (simp_all add: guard_defs host_defs)
  have run: "init ?h noOptions Game (start templatesOnly)
      = provision ?h noOptions ?cfg ''/work/proj'' ?w2"
    unfolding init_after_resolution [OF a b] by (simp add: andThen_def c)
  have 5: "fst (init ?h noOptions Game (start templatesOnly))
       = Throw (InitError (CommandExited ''npm init -y'' (Some 127) []))"
    unfolding run by (simp add: provision_defs host_defs)
  from 1 2 3 4 b 5 show ?thesis by (intro conjI)
qed

end
